theory Spec2Isabelle
  imports Main "HOL-Library.AList" "HOL-Library.Sublist"
begin

text \<open>
  A pattern-matched dispatcher: handlers are registered under patterns (\<open>add\<close>), a
  call (\<open>act\<close>) is routed to the handler of the best matching pattern and runs under
  a timeout. The sources hold two generations of the program. The definitions without
  a suffix follow the current one: the utilities with \<open>objectify\<close>, \<open>split\<close>,
  \<open>beautify\<close> and \<open>createPayloadWrapper\<close>, and the instance that knows
  \<open>forbidSameRouteNames\<close>. The suffix \<open>_000\<close> marks the older copy of the utilities
  (its \<open>split\<close> keeps the sigil of a meta key), the suffix \<open>_001\<close> the older copy of
  the instance (its default match order is insertion).
\<close>

section \<open>JavaScript values\<close>

text \<open>
  The values a pattern can hold. An object is the list of its own enumerable properties
  in insertion order (keys are pairwise distinct in every object the program builds);
  numbers are the integers; a regular expression is represented by the text handed to
  the \<^verbatim>\<open>RegExp\<close> constructor (the engine's syntax check of that text, flags and the
  escaping of a slash inside the source are outside the model). Functions are not
  pattern values here: a handler is a value of its own type, below.
\<close>

datatype jsval =
    Undefined
  | Null
  | Bool bool
  | Num int
  | Str string
  | RegExp string
  | Obj "(string \<times> jsval) list"

type_synonym fields = "(string \<times> jsval) list"

text \<open>\<^verbatim>\<open>!!v\<close>: the falsy values are undefined, null, false, 0 and the empty string.\<close>

fun truthy :: "jsval \<Rightarrow> bool" where
  "truthy Undefined = False"
| "truthy Null = False"
| "truthy (Bool b) = b"
| "truthy (Num n) = (n \<noteq> 0)"
| "truthy (Str s) = (s \<noteq> [])"
| "truthy (RegExp s) = True"
| "truthy (Obj fs) = True"

text \<open>\<^verbatim>\<open>a || b\<close>\<close>

definition js_or :: "jsval \<Rightarrow> jsval \<Rightarrow> jsval" where
  "js_or a b = (if truthy a then a else b)"

text \<open>\<^verbatim>\<open>obj[key]\<close> on an object: the property, or undefined.\<close>

definition get_prop :: "fields \<Rightarrow> string \<Rightarrow> jsval" where
  "get_prop fs k = (case map_of fs k of None \<Rightarrow> Undefined | Some v \<Rightarrow> v)"

text \<open>\<^verbatim>\<open>obj[key] = v\<close>: an existing key keeps its place, a new key goes last.\<close>

abbreviation set_prop :: "fields \<Rightarrow> string \<Rightarrow> jsval \<Rightarrow> fields" where
  "set_prop fs k v \<equiv> AList.update k v fs"


definition isPlainObject :: "jsval \<Rightarrow> bool" where
  "isPlainObject v = (case v of Obj _ \<Rightarrow> True | _ \<Rightarrow> False)"


section \<open>Strings\<close>

text \<open>
  The white space \<^verbatim>\<open>String.prototype.trim\<close> removes, among the ASCII characters (the
  other white space of Unicode is outside the model).
\<close>

definition ws :: "char \<Rightarrow> bool" where
  "ws c = (c \<in> set [CHR '' '', CHR 0x09, CHR 0x0A, CHR 0x0B, CHR 0x0C, CHR 0x0D])"

definition ltrim :: "string \<Rightarrow> string" where
  "ltrim s = dropWhile ws s"

definition rtrim :: "string \<Rightarrow> string" where
  "rtrim s = rev (dropWhile ws (rev s))"

definition trim :: "string \<Rightarrow> string" where
  "trim s = rtrim (ltrim s)"

text \<open>\<^verbatim>\<open>s.split(c)\<close> for a one-character separator: always at least one piece.\<close>

fun split_on :: "char \<Rightarrow> string \<Rightarrow> string list" where
  "split_on c [] = [[]]"
| "split_on c (x # xs) =
     (if x = c then [] # split_on c xs
      else (case split_on c xs of [] \<Rightarrow> [[x]] | y # ys \<Rightarrow> (x # y) # ys))"


text \<open>\<^verbatim>\<open>s.slice(1, -1)\<close>: the string without its first and its last character.\<close>

definition slice_1_m1 :: "string \<Rightarrow> string" where
  "slice_1_m1 s = butlast (tl s)"

text \<open>Decimal rendering of a number.\<close>

fun show_nat :: "nat \<Rightarrow> string" where
  "show_nat n =
     (if n < 10 then [char_of (48 + n)]
      else show_nat (n div 10) @ [char_of (48 + n mod 10)])"

declare show_nat.simps [simp del]

definition show_int :: "int \<Rightarrow> string" where
  "show_int i = (if i < 0 then CHR ''-'' # show_nat (nat (- i)) else show_nat (nat i))"

section \<open>Parsing a pattern string (text2obj)\<close>

text \<open>
  \<^verbatim>\<open>
  function text2obj(input) {
    const output = input.split(',').reduce((prev, cur) => {
      let [ key, value ] = cur.trim().split(':')
      if (typeof value === 'undefined') {
        value = regExpAll.toString()
      }
      const trimmedValue = value.trim()
      prev[key.trim()] = trimmedValue[0] === '/' ?
        new RegExp(trimmedValue.slice(1, -1)) :
        trimmedValue
      return prev
    }, {})
    return output
  }
  \<close>
  \<open>regExpAll\<close> is \<^verbatim>\<open>/.*/\<close>; the older copy of the function writes the literal
  \<^verbatim>\<open>'/.*/'\<close> in its place. The destructuring takes the first two pieces of the
  split at the colon and drops the others.
\<close>

text \<open>\<^verbatim>\<open>regexp.toString()\<close>, from the source of the regular expression.\<close>

definition regexp_toString :: "string \<Rightarrow> string" where
  "regexp_toString src = ''/'' @ src @ ''/''"

text \<open>The source of \<^verbatim>\<open>const regExpAll = /.*/\<close>.\<close>

definition regExpAll :: string where
  "regExpAll = ''.*''"

definition text2obj_step :: "fields \<Rightarrow> string \<Rightarrow> fields" where
  "text2obj_step prev cur =
     (let pieces = split_on CHR '':'' (trim cur);
          key = (case pieces of [] \<Rightarrow> [] | k # _ \<Rightarrow> k);
          value = (case pieces of _ # v # _ \<Rightarrow> v | _ \<Rightarrow> regexp_toString regExpAll);
          trimmedValue = trim value
      in set_prop prev (trim key)
           (if take 1 trimmedValue = ''/''
            then RegExp (slice_1_m1 trimmedValue)
            else Str trimmedValue))"

definition text2obj :: "string \<Rightarrow> fields" where
  "text2obj input = foldl text2obj_step [] (split_on CHR '','' input)"

text \<open>
  \<^verbatim>\<open>
  function objectify(obj) {
    return ld.isString(obj) ? text2obj(obj) : ld.cloneDeep(obj)
  }
  \<close>
  On immutable values the deep clone is the value itself; the store model at the end of
  the theory gives the clone its own cells.
\<close>

definition objectify :: "jsval \<Rightarrow> jsval" where
  "objectify obj = (case obj of Str s \<Rightarrow> Obj (text2obj s) | _ \<Rightarrow> obj)"

section \<open>Splitting a composite pattern (split)\<close>

text \<open>
  \<^verbatim>\<open>
  function split(...args) {
    const meta = {}
    const message = {}
    const raw = {}
    args.forEach(item => {
      const partialPattern = objectify(item)
      for (let field in partialPattern) {
        if (field[0] === '$') { // meta info like $timeout, $debug etc
          meta[field.substring(1)] = partialPattern[field]
        } else {
          message[field] = partialPattern[field]
        }
        raw[field] = partialPattern[field]
      }
    })
    return [ message, meta, raw ]
  }
  \<close>
  \<open>for ... in\<close> visits the properties of an object and nothing for the other values
  that \<open>objectify\<close> returns.
\<close>

definition is_meta :: "string \<Rightarrow> bool" where
  "is_meta field = (take 1 field = ''$'')"

definition split_field :: "fields \<times> fields \<times> fields \<Rightarrow> string \<times> jsval \<Rightarrow> fields \<times> fields \<times> fields" where
  "split_field acc kv =
     (case acc of (message, meta, raw) \<Rightarrow>
        (if is_meta (fst kv)
         then (message, set_prop meta (drop 1 (fst kv)) (snd kv), set_prop raw (fst kv) (snd kv))
         else (set_prop message (fst kv) (snd kv), meta, set_prop raw (fst kv) (snd kv))))"

definition for_in :: "jsval \<Rightarrow> fields" where
  "for_in v = (case v of Obj fs \<Rightarrow> fs | _ \<Rightarrow> [])"

definition split_item :: "fields \<times> fields \<times> fields \<Rightarrow> jsval \<Rightarrow> fields \<times> fields \<times> fields" where
  "split_item acc item = foldl split_field acc (for_in (objectify item))"

definition split :: "jsval list \<Rightarrow> fields \<times> fields \<times> fields" where
  "split args = foldl split_item ([], [], []) args"




section \<open>Rendering a pattern (beautify)\<close>

text \<open>\<^verbatim>\<open>String(v)\<close>, which is \<^verbatim>\<open>v.toString()\<close> where \<open>v\<close> is neither undefined nor null.\<close>

fun toString :: "jsval \<Rightarrow> string" where
  "toString Undefined = ''undefined''"
| "toString Null = ''null''"
| "toString (Bool b) = (if b then ''true'' else ''false'')"
| "toString (Num n) = show_int n"
| "toString (Str s) = s"
| "toString (RegExp src) = regexp_toString src"
| "toString (Obj fs) = ''[object Object]''"





section \<open>Deep equality and shallow merge\<close>

text \<open>\<^verbatim>\<open>ld.isEqual\<close>: two objects are equal when they have the same keys with equal values,
  in any order; the other values are equal when they are the same value.\<close>

fun isEqual :: "jsval \<Rightarrow> jsval \<Rightarrow> bool" where
  "isEqual (Obj fs) (Obj gs) =
     (length fs = length gs \<and>
      list_all (\<lambda>kv. case map_of gs (fst kv) of None \<Rightarrow> False | Some w \<Rightarrow> isEqual (snd kv) w) fs)"
| "isEqual v w = (v = w)"

text \<open>
  The own enumerable properties \<^verbatim>\<open>ld.assign\<close> copies from a source: the fields of an
  object, the indexed characters of a string, nothing for the other values.
\<close>

definition own_props :: "jsval \<Rightarrow> fields" where
  "own_props v =
     (case v of
        Obj fs \<Rightarrow> fs
      | Str s \<Rightarrow> map (\<lambda>i. (show_nat i, Str [s ! i])) [0..<length s]
      | _ \<Rightarrow> [])"

text \<open>\<^verbatim>\<open>ld.assign(target, ...sources)\<close>, on the fields of the target.\<close>

definition assign :: "fields \<Rightarrow> jsval list \<Rightarrow> fields" where
  "assign target sources =
     foldl (\<lambda>acc src. foldl (\<lambda>a kv. set_prop a (fst kv) (snd kv)) acc (own_props src))
       target sources"

section \<open>Numbers from values\<close>

text \<open>
  \<^verbatim>\<open>+v\<close>, with \<open>None\<close> for NaN. A string is read in decimal notation with an optional
  sign; the other notations of JavaScript numbers (fraction, exponent, hexadecimal,
  Infinity) are outside the model, which has the integers only.
\<close>

definition digit_of :: "char \<Rightarrow> nat option" where
  "digit_of c =
     (let n = (of_char c :: nat) in if 48 \<le> n \<and> n \<le> 57 then Some (n - 48) else None)"

fun digits_to_nat :: "nat \<Rightarrow> string \<Rightarrow> nat option" where
  "digits_to_nat acc [] = Some acc"
| "digits_to_nat acc (c # cs) =
     (case digit_of c of None \<Rightarrow> None | Some d \<Rightarrow> digits_to_nat (10 * acc + d) cs)"

definition string_to_number :: "string \<Rightarrow> int option" where
  "string_to_number s =
     (case trim s of
        [] \<Rightarrow> Some 0
      | c # cs \<Rightarrow>
          (if c = CHR ''-'' \<and> cs \<noteq> [] then map_option (\<lambda>n. - int n) (digits_to_nat 0 cs)
           else if c = CHR ''+'' \<and> cs \<noteq> [] then map_option int (digits_to_nat 0 cs)
           else map_option int (digits_to_nat 0 (c # cs))))"

fun to_number :: "jsval \<Rightarrow> int option" where
  "to_number Undefined = None"
| "to_number Null = Some 0"
| "to_number (Bool b) = Some (if b then 1 else 0)"
| "to_number (Num n) = Some n"
| "to_number (Str s) = string_to_number s"
| "to_number (RegExp src) = None"
| "to_number (Obj fs) = None"

text \<open>\<^verbatim>\<open>executionTime > slowTimeout\<close>, the left side a number of milliseconds.\<close>

definition exceeds :: "nat \<Rightarrow> jsval \<Rightarrow> bool" where
  "exceeds ms limit = (case to_number limit of None \<Rightarrow> False | Some n \<Rightarrow> n < int ms)"

section \<open>The pattern index\<close>

text \<open>
  A handler passed to \<open>add\<close> is a function or another value (the name of a
  transport). A function is given by what a call of it does: it throws at once, returns
  a value or a promise that is fulfilled or rejected after some milliseconds (none for
  a plain value), or returns a promise that never settles.
\<close>

datatype js_error = JsError (err_name: string) (err_message: string)

datatype outcome =
    Throws js_error
  | Resolves nat jsval
  | Rejects nat js_error
  | Hangs

type_synonym jsfun = "jsval \<Rightarrow> outcome"

datatype handler = Fn jsfun | Val jsval

definition isFunction :: "handler \<Rightarrow> bool" where
  "isFunction h = (case h of Fn _ \<Rightarrow> True | Val _ \<Rightarrow> False)"

text \<open>The registration record \<^verbatim>\<open>{ type, handler }\<close>.\<close>

record payload =
  type :: jsval
  handler :: handler

type_synonym entry = "fields \<times> payload"

datatype match_order = Depth | Insertion

text \<open>
  Modelled from the spec: the index is the library bloomrun, which is not part of the
  sources; section 4.1 of the specification gives its behaviour. An entry matches a
  query when every key of the entry that is not a meta key is in the query with the
  same value; the keys the entry lacks and its meta keys impose nothing. Under
  \<open>insertion\<close> the lookup returns the match inserted first, under \<open>depth\<close> the match
  with the most keys that are not meta keys, the earlier one on a tie; nothing when no
  entry matches. \<open>add\<close> inserts after the entries present, \<open>remove\<close> deletes the first
  entry whose pattern equals its argument.
\<close>

definition matches :: "fields \<Rightarrow> fields \<Rightarrow> bool" where
  "matches e q =
     list_all (\<lambda>kv. is_meta (fst kv) \<or> map_of q (fst kv) = Some (snd kv)) e"

text \<open>Modelled from the spec: the number of keys of an entry that are not meta keys.\<close>

definition depth :: "fields \<Rightarrow> nat" where
  "depth e = length (filter (\<lambda>kv. \<not> is_meta (fst kv)) e)"

text \<open>Modelled from the spec: the first among the entries of the greatest depth.\<close>

fun deepest :: "entry \<Rightarrow> entry list \<Rightarrow> entry" where
  "deepest best [] = best"
| "deepest best (e # es) = deepest (if depth (fst best) < depth (fst e) then e else best) es"

text \<open>Modelled from the spec: the best match of a query under the match order, if any.\<close>

definition lookup :: "match_order \<Rightarrow> entry list \<Rightarrow> fields \<Rightarrow> entry option" where
  "lookup order entries q =
     (case filter (\<lambda>e. matches (fst e) q) entries of
        [] \<Rightarrow> None
      | m # ms \<Rightarrow> Some (case order of Insertion \<Rightarrow> m | Depth \<Rightarrow> deepest m ms))"

text \<open>Modelled from the spec: insertion, after the entries present.\<close>

definition index_add :: "entry list \<Rightarrow> fields \<Rightarrow> payload \<Rightarrow> entry list" where
  "index_add entries pattern p = entries @ [(pattern, p)]"

text \<open>Modelled from the spec: removal of the first entry whose pattern equals the argument.\<close>

fun index_remove :: "entry list \<Rightarrow> fields \<Rightarrow> entry list" where
  "index_remove [] pattern = []"
| "index_remove (e # es) pattern =
     (if isEqual (Obj (fst e)) (Obj pattern) then es else e # index_remove es pattern)"

section \<open>The instance\<close>

text \<open>
  \<^verbatim>\<open>
  const defaultConfig = {
    forbidSameRouteNames: false,
    matchOrder: 'depth', // insertion, depth
    timeout: 500,
    debug: false,
    slowPatternTimeout: null,
    terminateOn: ['ReferenceError', 'RangeError', 'SyntaxError', 'TypeError']
  }
  \<close>
  \<open>terminateOn\<close> is a list of error names or a function of the error whose truthy
  result mutes the error.
\<close>

datatype terminate_on = Names "string list" | Classifier "js_error \<Rightarrow> bool"

record config =
  forbidSameRouteNames :: bool
  matchOrder :: match_order
  timeout :: jsval
  debug :: jsval
  slowPatternTimeout :: jsval
  terminateOn :: terminate_on

definition defaultConfig :: config where
  "defaultConfig =
     \<lparr> forbidSameRouteNames = False, matchOrder = Depth, timeout = Num 500,
       debug = Bool False, slowPatternTimeout = Null,
       terminateOn = Names [''ReferenceError'', ''RangeError'', ''SyntaxError'', ''TypeError''] \<rparr>"

text \<open>
  A transport record: the methods \<open>send\<close> and \<open>request\<close> where it has them, its
  \<open>options\<close> where it has them, and the names of the lifecycle methods it declares.
\<close>

record transport_rec =
  send :: "jsfun option"
  request :: "jsfun option"
  options :: "fields option"
  hooks :: "string list"

text \<open>
  The instance \<open>Bishop\<close> returns: the two indices \<open>pm\<close> (all patterns) and
  \<open>pmLocal\<close>, the property \<open>timeout\<close> and the property \<open>transport\<close>.
\<close>

record bishop =
  pm :: "entry list"
  pmLocal :: "entry list"
  this_timeout :: jsval
  this_transport :: "(string \<times> transport_rec) list"

definition Bishop :: "config \<Rightarrow> bishop" where
  "Bishop cfg = \<lparr> pm = [], pmLocal = [], this_timeout = timeout cfg, this_transport = [] \<rparr>"

section \<open>Registration (add, remove)\<close>

text \<open>
  \<^verbatim>\<open>
  add(_pattern, handler) {
    const type = isFunction(handler) ? 'local' : handler
    const pattern = objectify(_pattern)
    const payload = { type, handler }
    if (config.forbidSameRouteNames) { // ensure same route not yet exists
      const foundPattern = pm.lookup(pattern, { patterns: true })
      if(ld.isEqual(foundPattern, pattern)) {
        throw new Error(`.forbidSameRouteNames option is enabled, and pattern already exists: ...`)
      }
    }
    pm.add(pattern, payload)
    if (type === 'local') {
      pmLocal.add(pattern, payload)
    }
  }
  \<close>
  The index sees a pattern through its enumerable fields; \<open>pat\<close> stands for the
  argument \<^verbatim>\<open>_pattern\<close>.
\<close>

datatype add_error = DUPLICATE_PATTERN fields

definition payload_of :: "handler \<Rightarrow> payload" where
  "payload_of h = \<lparr> type = (case h of Fn _ \<Rightarrow> Str ''local'' | Val v \<Rightarrow> v), handler = h \<rparr>"

definition pattern_exists :: "config \<Rightarrow> entry list \<Rightarrow> fields \<Rightarrow> bool" where
  "pattern_exists cfg entries pattern =
     (forbidSameRouteNames cfg \<and>
      (case lookup (matchOrder cfg) entries pattern of
         None \<Rightarrow> False
       | Some found \<Rightarrow> isEqual (Obj (fst found)) (Obj pattern)))"

definition add :: "config \<Rightarrow> bishop \<Rightarrow> jsval \<Rightarrow> handler \<Rightarrow> add_error + bishop" where
  "add cfg this pat h =
     (let pattern = for_in (objectify pat);
          payload = payload_of h
      in if pattern_exists cfg (pm this) pattern then Inl (DUPLICATE_PATTERN pattern)
         else Inr (this \<lparr> pm := index_add (pm this) pattern payload,
                          pmLocal := (if type payload = Str ''local''
                                      then index_add (pmLocal this) pattern payload
                                      else pmLocal this) \<rparr>))"

text \<open>
  \<^verbatim>\<open>
  remove(_pattern) {
    pm.remove(objectify(_pattern))
    pmLocal.remove(objectify(_pattern))
  }
  \<close>
\<close>

definition remove :: "bishop \<Rightarrow> jsval \<Rightarrow> bishop" where
  "remove this pat =
     this \<lparr> pm := index_remove (pm this) (for_in (objectify pat)),
            pmLocal := index_remove (pmLocal this) (for_in (objectify pat)) \<rparr>"

section \<open>Dispatch (act)\<close>

text \<open>
  What a call of \<open>act\<close> does is recorded as the promise the caller holds and the
  list of the effects of the call, each with the time in milliseconds since the call:
  a lookup in an index (\<open>True\<close> for the local index), the call of the method, the call
  of the error classifier, an error or a warning given to the logger, the end of the
  process, a rejection that nothing handles. A promise is fulfilled or rejected at some time, stays pending, or is lost
  because the process ended at some time before it settled.
\<close>

datatype event =
    Lookup bool fields
  | Invoke fields
  | Classify js_error
  | LogError js_error
  | LogWarn nat
  | Exit
  | Unhandled js_error

datatype act_error =
    PATTERN_NOT_SPECIFIED
  | PATTERN_NOT_FOUND fields
  | NO_SUCH_TRANSPORT jsval
  | PATTERN_TIMEOUT jsval fields
  | HANDLER_FAILURE js_error

datatype promise =
    Fulfilled nat jsval
  | Rejected nat act_error
  | Pending
  | Aborted nat

record act_result =
  settled :: promise
  events :: "(nat \<times> event) list"

text \<open>
  \<^verbatim>\<open>
  const errorHandler = isFunction(config.terminateOn) ? config.terminateOn : err => {
    if (config.terminateOn.includes(err.name)) {
      logger.error(err)
      process.exit(1)
    }
    // falsy - handle error (return to sender, emit message etc)
    // truthy - mute error (ex: error already logged)
    return false
  }
  \<close>
\<close>

datatype verdict = Muted | NotMuted | Terminated | Threw js_error

definition errorHandler :: "config \<Rightarrow> js_error \<Rightarrow> verdict" where
  "errorHandler cfg err =
     (case terminateOn cfg of
        Classifier f \<Rightarrow> (if f err then Muted else NotMuted)
      | Names names \<Rightarrow> (if err_name err \<in> set names then Terminated else NotMuted))"

text \<open>A call \<^verbatim>\<open>method(...input)\<close>; a method that is not a function makes the call throw.\<close>

definition invoke :: "handler \<Rightarrow> fields \<Rightarrow> outcome" where
  "invoke method input =
     (case method of
        Fn f \<Rightarrow> f (Obj input)
      | Val v \<Rightarrow> Throws (JsError ''TypeError'' ''method is not a function''))"

text \<open>
  \<^verbatim>\<open>
  const doPostOperations = () => {
    if (slowTimeout) {
      const executionTime = calcDelay(patternStarted, false)
      if (executionTime > slowTimeout) {
        this.log.warn(`pattern executed in ${executionTime}ms: ${JSON.stringify(pattern)}`)
      }
    }
    debug.trackEnd('finished')
  }
  \<close>
  The calls of the debugger are left out here; see \<open>executor\<close> for its annotations.
\<close>

definition doPostOperations :: "jsval \<Rightarrow> nat \<Rightarrow> (nat \<times> event) list" where
  "doPostOperations slowTimeout t =
     (if truthy slowTimeout \<and> exceeds t slowTimeout then [(t, LogWarn t)] else [])"

text \<open>
  The executor of a local pattern with \<open>$nowait\<close>:
  \<^verbatim>\<open>
  (...input) => {
    debug.push('local nowait behaviour selected')
    Promise.resolve(method(...input)).catch(err => {
      // in case of local pattern - resolve immediately and emit error on fail
      // in case of transports - they should respect $nowait flag and emit errors manually
      const muteError = errorHandler(err)
      if (!muteError) { this.log.error(err) }
    })
    // append debugin information to empty response
    const response = isDebugEnabled ? debugStorage : undefined
    doPostOperations()
    return Promise.resolve(response)
  }
  \<close>
  A method that throws at once throws out of the executor, before the \<open>catch\<close> is
  attached.
\<close>

definition on_classified :: "verdict \<Rightarrow> nat \<Rightarrow> js_error \<Rightarrow> (nat \<times> event) list" where
  "on_classified muteError d err =
     (d, Classify err) #
     (case muteError of
        Muted \<Rightarrow> []
      | NotMuted \<Rightarrow> [(d, LogError err)]
      | Terminated \<Rightarrow> [(d, LogError err), (d, Exit)]
      | Threw e \<Rightarrow> [(d, Unhandled e)])"

definition executor_nowait :: "config \<Rightarrow> jsval \<Rightarrow> jsval \<Rightarrow> handler \<Rightarrow> fields \<Rightarrow> act_result" where
  "executor_nowait cfg slowTimeout response method input =
     (case invoke method input of
        Throws err \<Rightarrow>
          \<lparr> settled = Rejected 0 (HANDLER_FAILURE err), events = [(0, Invoke input)] \<rparr>
      | Resolves d v \<Rightarrow>
          \<lparr> settled = Fulfilled 0 response,
            events = (0, Invoke input) # doPostOperations slowTimeout 0 \<rparr>
      | Rejects d err \<Rightarrow>
          \<lparr> settled = Fulfilled 0 response,
            events = (0, Invoke input) # doPostOperations slowTimeout 0 @
                     on_classified (errorHandler cfg err) d err \<rparr>
      | Hangs \<Rightarrow>
          \<lparr> settled = Fulfilled 0 response,
            events = (0, Invoke input) # doPostOperations slowTimeout 0 \<rparr>)"

text \<open>
  The executor of every other call:
  \<^verbatim>\<open>
  async (...input) => {
    debug.track('pattern method run')
    let result = null
    try {
      result = await method(...input)
      debug.trackEnd('pattern method run', 'success')
    } catch (err) {
      const muteError = errorHandler(err)
      debug.trackEnd('pattern method run', `fail: ${err.message}, muted: ${muteError}`)
      if (!muteError) { throw err }
    }
    doPostOperations()
    return ld.isObject(result) ? ld.assign(result, debugStorage) : result
  }
  \<close>
  The annotations are attached to a result that is an object with fields.
\<close>

definition attach :: "jsval \<Rightarrow> fields \<Rightarrow> jsval" where
  "attach result debugStorage =
     (case result of Obj fs \<Rightarrow> Obj (assign fs [Obj debugStorage]) | _ \<Rightarrow> result)"

definition on_failure :: "config \<Rightarrow> jsval \<Rightarrow> fields \<Rightarrow> nat \<Rightarrow> js_error \<Rightarrow> act_result" where
  "on_failure cfg slowTimeout input d err =
     (case errorHandler cfg err of
        Muted \<Rightarrow>
          \<lparr> settled = Fulfilled d Null,
            events = (0, Invoke input) # (d, Classify err) # doPostOperations slowTimeout d \<rparr>
      | NotMuted \<Rightarrow>
          \<lparr> settled = Rejected d (HANDLER_FAILURE err),
            events = [(0, Invoke input), (d, Classify err)] \<rparr>
      | Terminated \<Rightarrow>
          \<lparr> settled = Aborted d,
            events = [(0, Invoke input), (d, Classify err), (d, LogError err), (d, Exit)] \<rparr>
      | Threw e \<Rightarrow>
          \<lparr> settled = Rejected d (HANDLER_FAILURE e),
            events = [(0, Invoke input), (d, Classify err)] \<rparr>)"

definition executor_await :: "config \<Rightarrow> jsval \<Rightarrow> fields \<Rightarrow> handler \<Rightarrow> fields \<Rightarrow> act_result" where
  "executor_await cfg slowTimeout debugStorage method input =
     (case invoke method input of
        Throws err \<Rightarrow> on_failure cfg slowTimeout input 0 err
      | Resolves d v \<Rightarrow>
          \<lparr> settled = Fulfilled d (attach v debugStorage),
            events = (0, Invoke input) # doPostOperations slowTimeout d \<rparr>
      | Rejects d err \<Rightarrow> on_failure cfg slowTimeout input d err
      | Hangs \<Rightarrow> \<lparr> settled = Pending, events = [(0, Invoke input)] \<rparr>)"

text \<open>
  The timer of \<^verbatim>\<open>promise.timeout(timeout)\<close>. The promise library hands \<^verbatim>\<open>+timeout\<close> to
  \<open>setTimeout\<close>, which waits one millisecond when the number is below one, above
  \<open>2^31 - 1\<close> or NaN. The promise returned is the given one when that settles within the
  delay and is rejected with a TimeoutError at the delay otherwise, which \<open>act\<close> turns
  into its own error:
  \<^verbatim>\<open>
  return Promise
    .resolve(executor(pattern))
    .timeout(timeout)
    .catch(Promise.TimeoutError, () => {
      debug.push('timeout error')
      throw new Error(`pattern timeout after ${timeout}ms: ${JSON.stringify(pattern)}`)
    })
  \<close>
\<close>

definition timer_delay :: "jsval \<Rightarrow> nat" where
  "timer_delay ms =
     (case to_number ms of
        None \<Rightarrow> 1
      | Some n \<Rightarrow> (if n < 1 \<or> 2147483647 < n then 1 else nat n))"

definition settles_within :: "nat \<Rightarrow> promise \<Rightarrow> bool" where
  "settles_within ms p =
     (case p of
        Fulfilled d v \<Rightarrow> d \<le> ms
      | Rejected d e \<Rightarrow> d \<le> ms
      | Pending \<Rightarrow> False
      | Aborted d \<Rightarrow> d \<le> ms)"

definition with_timeout :: "jsval \<Rightarrow> fields \<Rightarrow> promise \<Rightarrow> promise" where
  "with_timeout ms pattern p =
     (if settles_within (timer_delay ms) p then p
      else Rejected (timer_delay ms) (PATTERN_TIMEOUT ms pattern))"

text \<open>
  The stages of \<open>act\<close>, in the order of the source. The request pattern:
  \<^verbatim>\<open>
  const [ _pattern, ...payloads ] = arguments
  if (!_pattern) { throw new Error('pattern not specified') }
  const pattern = ld.assign({}, objectify(_pattern), ...payloads)
  \<close>
\<close>

definition first_argument :: "jsval list \<Rightarrow> jsval" where
  "first_argument arguments = (case arguments of [] \<Rightarrow> Undefined | a # _ \<Rightarrow> a)"

definition request_pattern :: "jsval list \<Rightarrow> fields" where
  "request_pattern arguments =
     assign [] (objectify (first_argument arguments) # drop 1 arguments)"

text \<open>
  The lookup and the choice of the method:
  \<^verbatim>\<open>
  const matchResult = (pattern.$local ? pmLocal : pm).lookup(pattern, {
    patterns: true,
    payloads: true
  })
  if (!matchResult) {
    throw new Error(`pattern not found: ${JSON.stringify(pattern)}`)
  }
  const { type, handler } = matchResult.payload
  const isLocalPattern = type === 'local'
  let method
  if (isLocalPattern) {
    method = handler
  } else {
    // wrap with network call
    if (!this.transport[type] || !this.transport[type].send) {
      throw new Error(`transport "${type}" not exists`)
    }
    method = this.transport[type].send
  }
  \<close>
\<close>

definition resolve :: "config \<Rightarrow> bishop \<Rightarrow> fields \<Rightarrow> act_error + bool \<times> handler" where
  "resolve cfg this pattern =
     (case lookup (matchOrder cfg)
             (if truthy (get_prop pattern ''$local'') then pmLocal this else pm this) pattern of
        None \<Rightarrow> Inl (PATTERN_NOT_FOUND pattern)
      | Some matchResult \<Rightarrow>
          (if type (snd matchResult) = Str ''local''
           then Inr (True, handler (snd matchResult))
           else
             (case map_of (this_transport this) (toString (type (snd matchResult))) of
                None \<Rightarrow> Inl (NO_SUCH_TRANSPORT (type (snd matchResult)))
              | Some t \<Rightarrow>
                  (case send t of
                     None \<Rightarrow> Inl (NO_SUCH_TRANSPORT (type (snd matchResult)))
                   | Some f \<Rightarrow> Inr (False, Fn f)))))"

text \<open>
  The settings read from the pattern and the choice of the executor:
  \<^verbatim>\<open>
  const slowTimeout = config.slowPatternTimeout || pattern.$slow
  const timeout = pattern.$timeout || this.timeout
  const isDebugEnabled = pattern.$debug || config.debug
  ...
  const executor = isLocalPattern && pattern.$nowait ? (...input) => { ... } : async (...input) => { ... }
  \<close>
\<close>

definition slowTimeout :: "config \<Rightarrow> fields \<Rightarrow> jsval" where
  "slowTimeout cfg pattern = js_or (slowPatternTimeout cfg) (get_prop pattern ''$slow'')"

definition effective_timeout :: "bishop \<Rightarrow> fields \<Rightarrow> jsval" where
  "effective_timeout this pattern = js_or (get_prop pattern ''$timeout'') (this_timeout this)"

definition isDebugEnabled :: "config \<Rightarrow> fields \<Rightarrow> bool" where
  "isDebugEnabled cfg pattern = truthy (js_or (get_prop pattern ''$debug'') (debug cfg))"

text \<open>
  Modelled from the spec: \<open>createDebugger\<close> is not among the sources, and the
  specification says only that \<open>$debug\<close> attaches trace annotations to the result. The
  annotations an enabled debugger has collected in \<open>debugStorage\<close> are a parameter of
  the model (\<open>annotations\<close>); a disabled debugger collects none.
\<close>

definition executor :: "config \<Rightarrow> fields \<Rightarrow> bool \<Rightarrow> handler \<Rightarrow> fields \<Rightarrow> act_result" where
  "executor cfg annotations isLocalPattern method pattern =
     (if isLocalPattern \<and> truthy (get_prop pattern ''$nowait'')
      then executor_nowait cfg (slowTimeout cfg pattern)
             (if isDebugEnabled cfg pattern then Obj annotations else Undefined) method pattern
      else executor_await cfg (slowTimeout cfg pattern)
             (if isDebugEnabled cfg pattern then annotations else []) method pattern)"

text \<open>
  The whole call: \<open>dispatch\<close> is what \<open>act\<close> does once the request pattern is
  built. Every error thrown in the asynchronous function rejects the promise it returns,
  at once.
  \<^verbatim>\<open>
  if (!timeout) {
    return executor(pattern)
  }
  return Promise.resolve(executor(pattern)).timeout(timeout).catch(...)
  \<close>
\<close>

definition dispatch :: "config \<Rightarrow> fields \<Rightarrow> bishop \<Rightarrow> fields \<Rightarrow> act_result" where
  "dispatch cfg annotations this pattern =
     (let looked = (0, Lookup (truthy (get_prop pattern ''$local'')) pattern)
      in case resolve cfg this pattern of
           Inl e \<Rightarrow> \<lparr> settled = Rejected 0 e, events = [looked] \<rparr>
         | Inr (isLocalPattern, method) \<Rightarrow>
             (let r = executor cfg annotations isLocalPattern method pattern;
                  timeout = effective_timeout this pattern
              in \<lparr> settled = (if \<not> truthy timeout then settled r
                               else with_timeout timeout pattern (settled r)),
                   events = looked # events r \<rparr>))"

definition act :: "config \<Rightarrow> fields \<Rightarrow> bishop \<Rightarrow> jsval list \<Rightarrow> act_result" where
  "act cfg annotations this arguments =
     (if \<not> truthy (first_argument arguments)
      then \<lparr> settled = Rejected 0 PATTERN_NOT_SPECIFIED, events = [] \<rparr>
      else dispatch cfg annotations this (request_pattern arguments))"

section \<open>Dispatch in the older copy of the instance\<close>

text \<open>
  The older copy of \<open>act\<close> takes one payload, has no debugger and no warning of a
  slow call, and differs in the classifier and in the executors.
  \<^verbatim>\<open>
  const errorHandler = ld.isFunction(config.terminateOn) ? config.terminateOn : err => {
    if (config.terminateOn.includes(err.name)) {
      this.log.fatal(err)
      process.exit(1)
    }
    return false
  }
  \<close>
  The classifier is an arrow function inside the arrow function \<open>Bishop\<close>, so that
  \<open>this\<close> is the \<open>this\<close> of the module, an object with no \<open>log\<close>: for an error
  whose name is listed, \<^verbatim>\<open>this.log.fatal\<close> throws a TypeError.
\<close>

definition errorHandler_001 :: "config \<Rightarrow> js_error \<Rightarrow> verdict" where
  "errorHandler_001 cfg err =
     (case terminateOn cfg of
        Classifier f \<Rightarrow> (if f err then Muted else NotMuted)
      | Names names \<Rightarrow>
          (if err_name err \<in> set names
           then Threw (JsError ''TypeError'' ''Cannot read property fatal of undefined'')
           else NotMuted))"

text \<open>
  \<^verbatim>\<open>
  const executor = isLocalPattern && pattern.$nowait ? (...input) => {
    Promise.resolve(method(...input)).catch(err => {
      const muteError = errorHandler(err)
      if (!muteError) { this.log.error(err) }
    })
    return Promise.resolve()
  }: (...input) => {
    return Promise.resolve(method(...input)).catch(err => {
      const muteError = errorHandler(err)
      if (!muteError) { throw err }
    })
  }
  \<close>
  In both executors a method that throws at once throws out of the executor.
\<close>

definition executor_nowait_001 :: "config \<Rightarrow> handler \<Rightarrow> fields \<Rightarrow> act_result" where
  "executor_nowait_001 cfg method input =
     (case invoke method input of
        Throws err \<Rightarrow>
          \<lparr> settled = Rejected 0 (HANDLER_FAILURE err), events = [(0, Invoke input)] \<rparr>
      | Resolves d v \<Rightarrow>
          \<lparr> settled = Fulfilled 0 Undefined, events = [(0, Invoke input)] \<rparr>
      | Rejects d err \<Rightarrow>
          \<lparr> settled = Fulfilled 0 Undefined,
            events = (0, Invoke input) # on_classified (errorHandler_001 cfg err) d err \<rparr>
      | Hangs \<Rightarrow>
          \<lparr> settled = Fulfilled 0 Undefined, events = [(0, Invoke input)] \<rparr>)"

definition executor_await_001 :: "config \<Rightarrow> handler \<Rightarrow> fields \<Rightarrow> act_result" where
  "executor_await_001 cfg method input =
     (case invoke method input of
        Throws err \<Rightarrow>
          \<lparr> settled = Rejected 0 (HANDLER_FAILURE err), events = [(0, Invoke input)] \<rparr>
      | Resolves d v \<Rightarrow> \<lparr> settled = Fulfilled d v, events = [(0, Invoke input)] \<rparr>
      | Rejects d err \<Rightarrow>
          \<lparr> settled =
              (case errorHandler_001 cfg err of
                 Muted \<Rightarrow> Fulfilled d Undefined
               | NotMuted \<Rightarrow> Rejected d (HANDLER_FAILURE err)
               | Terminated \<Rightarrow> Aborted d
               | Threw e \<Rightarrow> Rejected d (HANDLER_FAILURE e)),
            events = [(0, Invoke input), (d, Classify err)] \<rparr>
      | Hangs \<Rightarrow> \<lparr> settled = Pending, events = [(0, Invoke input)] \<rparr>)"

definition executor_001 :: "config \<Rightarrow> bool \<Rightarrow> handler \<Rightarrow> fields \<Rightarrow> act_result" where
  "executor_001 cfg isLocalPattern method pattern =
     (if isLocalPattern \<and> truthy (get_prop pattern ''$nowait'')
      then executor_nowait_001 cfg method pattern
      else executor_await_001 cfg method pattern)"

text \<open>
  \<^verbatim>\<open>
  async act(_pattern, payload = {}) {
    if (!_pattern) { throw new Error('pattern not specified') }
    const pattern = ld.assign({}, objectify(_pattern), payload)
    ...
  \<close>
  The lookup, the choice of the method, the timeout and the timer are those of the
  current copy.
\<close>

definition request_pattern_001 :: "jsval list \<Rightarrow> fields" where
  "request_pattern_001 arguments =
     assign [] (objectify (first_argument arguments) # take 1 (drop 1 arguments))"

definition act_001 :: "config \<Rightarrow> bishop \<Rightarrow> jsval list \<Rightarrow> act_result" where
  "act_001 cfg this arguments =
     (if \<not> truthy (first_argument arguments)
      then \<lparr> settled = Rejected 0 PATTERN_NOT_SPECIFIED, events = [] \<rparr>
      else
        (let pattern = request_pattern_001 arguments;
             looked = (0, Lookup (truthy (get_prop pattern ''$local'')) pattern)
         in case resolve cfg this pattern of
              Inl e \<Rightarrow> \<lparr> settled = Rejected 0 e, events = [looked] \<rparr>
            | Inr (isLocalPattern, method) \<Rightarrow>
                (let r = executor_001 cfg isLocalPattern method pattern;
                     timeout = effective_timeout this pattern
                 in \<lparr> settled = (if \<not> truthy timeout then settled r
                                  else with_timeout timeout pattern (settled r)),
                      events = looked # events r \<rparr>)))"

section \<open>Lifecycle of the transports\<close>

text \<open>
  Modelled from the spec: \<open>runMethodsParallel\<close> is not among the sources. Section 4.5
  of the specification: invoke \<open>record[method]\<close> on every transport that has it, in
  parallel, and resolve when all have completed. The model returns the calls made, as
  pairs of the transport's name and the method called.
\<close>

definition runMethodsParallel :: "(string \<times> transport_rec) list \<Rightarrow> string \<Rightarrow> (string \<times> string) list" where
  "runMethodsParallel transports method =
     map (\<lambda>t. (fst t, method)) (filter (\<lambda>t. method \<in> set (hooks (snd t))) transports)"

text \<open>
  \<^verbatim>\<open>
  async connect() { await runMethodsParallel(this.transport, 'connect') },
  async disconnect() { await runMethodsParallel(this.transport, 'disconnect') },
  async listen() { await runMethodsParallel(this.transport, 'listen') },
  async close() { await runMethodsParallel(this.transport, 'close') }
  \<close>
\<close>

definition connect :: "bishop \<Rightarrow> (string \<times> string) list" where
  "connect this = runMethodsParallel (this_transport this) ''connect''"

definition disconnect :: "bishop \<Rightarrow> (string \<times> string) list" where
  "disconnect this = runMethodsParallel (this_transport this) ''disconnect''"

definition listen :: "bishop \<Rightarrow> (string \<times> string) list" where
  "listen this = runMethodsParallel (this_transport this) ''listen''"

definition close :: "bishop \<Rightarrow> (string \<times> string) list" where
  "close this = runMethodsParallel (this_transport this) ''close''"

text \<open>
  The older copy of the instance has the same four methods, but for \<open>disconnect\<close>:
  \<^verbatim>\<open>
  // disconnect from all remote instances
  async disconnect() {
    await runMethodsParallel(this.transport, 'connect')
  },
  \<close>
\<close>

definition disconnect_001 :: "bishop \<Rightarrow> (string \<times> string) list" where
  "disconnect_001 this = runMethodsParallel (this_transport this) ''connect''"

section \<open>The wrapper of a payload (createPayloadWrapper)\<close>

text \<open>
  \<^verbatim>\<open>
  createPayloadWrapper(payload, headers, remoteTransportsStorage) {
    if(headers.local || ld.isFunction(payload)) { // this method found in local patterns
      return [ payload, {} ]
    }
    // thereis a string in payload - redirect to external transport
    const { request, options } = remoteTransportsStorage[payload] || {}
    if (!request) {
      throw new Error(`transport ${payload} has no .request method`)
    }
    if (options.timeout && !headers.timeout) { // redefine pattern timeout if transport-specific is set
      headers.timeout = options.timeout
    }
    return [ request, {} ]
  }
  \<close>
  The model returns the method and the headers as the call leaves them. A transport with
  a \<open>request\<close> and no \<open>options\<close> makes \<^verbatim>\<open>options.timeout\<close> throw a TypeError.
\<close>

datatype wrapper_error = NO_REQUEST_METHOD handler | OPTIONS_UNDEFINED

definition transport_key :: "handler \<Rightarrow> string" where
  "transport_key payload = (case payload of Val v \<Rightarrow> toString v | Fn f \<Rightarrow> [])"

definition createPayloadWrapper ::
    "handler \<Rightarrow> fields \<Rightarrow> (string \<times> transport_rec) list \<Rightarrow> wrapper_error + handler \<times> fields" where
  "createPayloadWrapper payload headers remoteTransportsStorage =
     (if truthy (get_prop headers ''local'') \<or> isFunction payload then Inr (payload, headers)
      else
        (case map_of remoteTransportsStorage (transport_key payload) of
           None \<Rightarrow> Inl (NO_REQUEST_METHOD payload)
         | Some t \<Rightarrow>
             (case request t of
                None \<Rightarrow> Inl (NO_REQUEST_METHOD payload)
              | Some f \<Rightarrow>
                  (case options t of
                     None \<Rightarrow> Inl OPTIONS_UNDEFINED
                   | Some opts \<Rightarrow>
                       (if truthy (get_prop opts ''timeout'') \<and> \<not> truthy (get_prop headers ''timeout'')
                        then Inr (Fn f, set_prop headers ''timeout'' (get_prop opts ''timeout''))
                        else Inr (Fn f, headers))))))"

section \<open>Reference notions for the parser and the splitter\<close>










section \<open>Example instances\<close>

text \<open>
  An instance with one local pattern \<^verbatim>\<open>{ role: 'a' }\<close>, as \<open>add\<close> leaves it, and
  three handlers: one that answers after 200 milliseconds, one whose promise never
  settles, one whose promise is rejected after 3 milliseconds.
\<close>

definition slow_handler :: handler where
  "slow_handler = Fn (\<lambda>p. Resolves 200 (Str ''done''))"

definition hanging_handler :: handler where
  "hanging_handler = Fn (\<lambda>p. Hangs)"


definition local_instance :: "handler \<Rightarrow> bishop" where
  "local_instance h =
     \<lparr> pm = [([(''role'', Str ''a'')], \<lparr> type = Str ''local'', handler = h \<rparr>)],
       pmLocal = [([(''role'', Str ''a'')], \<lparr> type = Str ''local'', handler = h \<rparr>)],
       this_timeout = Num 500, this_transport = [] \<rparr>"

text \<open>
  An instance with one pattern \<^verbatim>\<open>{ role: 'x' }\<close> routed to the transport \<open>http\<close>,
  whose record has a \<open>send\<close> and a \<open>request\<close> that never answer, the option
  \<^verbatim>\<open>timeout: 100\<close> and the lifecycle methods \<open>connect\<close> and \<open>disconnect\<close>.
\<close>

definition http_transport :: transport_rec where
  "http_transport =
     \<lparr> send = Some (\<lambda>p. Hangs), request = Some (\<lambda>p. Hangs),
       options = Some [(''timeout'', Num 100)], hooks = [''connect'', ''disconnect''] \<rparr>"

definition remote_instance :: bishop where
  "remote_instance =
     \<lparr> pm = [([(''role'', Str ''x'')], \<lparr> type = Str ''http'', handler = Val (Str ''http'') \<rparr>)],
       pmLocal = [], this_timeout = Num 500, this_transport = [(''http'', http_transport)] \<rparr>"

text \<open>Registering a list of patterns in turn, up to the first error.\<close>

fun add_all :: "config \<Rightarrow> bishop \<Rightarrow> (jsval \<times> handler) list \<Rightarrow> add_error + bishop" where
  "add_all cfg this [] = Inr this"
| "add_all cfg this (ph # rest) =
     (case add cfg this (fst ph) (snd ph) of
        Inl e \<Rightarrow> Inl e
      | Inr this' \<Rightarrow> add_all cfg this' rest)"

text \<open>
  A pattern as the specification has it: distinct keys, none of them a meta key, and no
  nested object among the values.
\<close>

definition plain_pattern :: "fields \<Rightarrow> bool" where
  "plain_pattern e =
     (distinct (map fst e) \<and>
      list_all (\<lambda>kv. \<not> is_meta (fst kv) \<and> \<not> isPlainObject (snd kv)) e)"

text \<open>A configuration that forbids equal patterns, with the index in insertion order.\<close>

definition forbid_insertion :: config where
  "forbid_insertion = defaultConfig \<lparr> forbidSameRouteNames := True, matchOrder := Insertion \<rparr>"

section \<open>Objects in a store\<close>

text \<open>
  Whether \<open>add\<close> and \<open>act\<close> write to the object a caller passes depends on which
  objects are shared, so the objects get an identity here. The store is the list of the
  cells allocated so far; a cell holds the fields of one object, a field holds a value
  without identity or the address of a cell, and a new object is the next cell. The
  caller writes to an object by replacing its cell.
\<close>

datatype cell_val = Lit jsval | Ref nat

type_synonym cell = "(string \<times> cell_val) list"

type_synonym heap = "cell list"

text \<open>
  \<^verbatim>\<open>ld.cloneDeep\<close>: a new cell for the object and for every object nested in it. The
  number \<open>n\<close> bounds the depth of nesting the copy follows; the result is \<open>None\<close>
  when the bound is reached or an address is not in the store. (The library also
  copies an object that contains itself, which no bound covers: such an object is
  outside the model.)
\<close>

fun cloneDeep :: "nat \<Rightarrow> heap \<Rightarrow> cell_val \<Rightarrow> (cell_val \<times> heap) option"
  and cloneFields :: "nat \<Rightarrow> heap \<Rightarrow> cell \<Rightarrow> (cell \<times> heap) option" where
  "cloneDeep n h (Lit v) = Some (Lit v, h)"
| "cloneDeep 0 h (Ref a) = None"
| "cloneDeep (Suc n) h (Ref a) =
     (if a < length h
      then (case cloneFields n h (h ! a) of
              None \<Rightarrow> None
            | Some (fs, h') \<Rightarrow> Some (Ref (length h'), h' @ [fs]))
      else None)"
| "cloneFields n h [] = Some ([], h)"
| "cloneFields n h (kv # kvs) =
     (case cloneDeep n h (snd kv) of
        None \<Rightarrow> None
      | Some (v', h1) \<Rightarrow>
          (case cloneFields n h1 kvs of
             None \<Rightarrow> None
           | Some (kvs', h2) \<Rightarrow> Some ((fst kv, v') # kvs', h2)))"

text \<open>The value an address stands for: the object with its nested objects, read to depth \<open>n\<close>.\<close>

fun snapshot :: "nat \<Rightarrow> heap \<Rightarrow> cell_val \<Rightarrow> jsval option"
  and snapshot_fields :: "nat \<Rightarrow> heap \<Rightarrow> cell \<Rightarrow> fields option" where
  "snapshot n h (Lit v) = Some v"
| "snapshot 0 h (Ref a) = None"
| "snapshot (Suc n) h (Ref a) =
     (if a < length h then map_option Obj (snapshot_fields n h (h ! a)) else None)"
| "snapshot_fields n h [] = Some []"
| "snapshot_fields n h (kv # kvs) =
     (case snapshot n h (snd kv) of
        None \<Rightarrow> None
      | Some v \<Rightarrow> map_option ((#) (fst kv, v)) (snapshot_fields n h kvs))"

text \<open>
  \<open>objectify\<close> on the store: the parser builds a new object from a string, every other
  argument is cloned.
\<close>

definition lit_fields :: "fields \<Rightarrow> cell" where
  "lit_fields fs = map (\<lambda>kv. (fst kv, Lit (snd kv))) fs"

definition objectify_h :: "nat \<Rightarrow> heap \<Rightarrow> cell_val \<Rightarrow> (cell_val \<times> heap) option" where
  "objectify_h n h obj =
     (case obj of
        Lit (Str s) \<Rightarrow> Some (Ref (length h), h @ [lit_fields (text2obj s)])
      | _ \<Rightarrow> cloneDeep n h obj)"

text \<open>
  \<^verbatim>\<open>ld.assign({}, ...sources)\<close> on the store: a new cell that receives the fields of the
  sources as they are, so that an object nested in a source is shared with the result.
\<close>

definition own_props_h :: "heap \<Rightarrow> cell_val \<Rightarrow> cell" where
  "own_props_h h src =
     (case src of
        Ref a \<Rightarrow> (if a < length h then h ! a else [])
      | Lit v \<Rightarrow> lit_fields (own_props v))"

definition assign_h :: "heap \<Rightarrow> cell_val list \<Rightarrow> nat \<times> heap" where
  "assign_h h sources =
     (length h,
      h @ [foldl (\<lambda>acc src. foldl (\<lambda>a kv. AList.update (fst kv) (snd kv) a) acc (own_props_h h src))
             [] sources])"

text \<open>
  The instance on the store: the indices keep the address of each pattern they were
  given. \<open>view\<close> reads the instance of the sections above off the store.
\<close>

record store_instance =
  heap :: heap
  pm_at :: "(cell_val \<times> payload) list"
  pmLocal_at :: "(cell_val \<times> payload) list"
  si_timeout :: jsval
  si_transport :: "(string \<times> transport_rec) list"

definition read_index :: "nat \<Rightarrow> heap \<Rightarrow> (cell_val \<times> payload) list \<Rightarrow> entry list option" where
  "read_index n h es =
     those (map (\<lambda>e. map_option (\<lambda>v. (for_in v, snd e)) (snapshot n h (fst e))) es)"

definition view :: "nat \<Rightarrow> store_instance \<Rightarrow> bishop option" where
  "view n si =
     (case (read_index n (heap si) (pm_at si), read_index n (heap si) (pmLocal_at si)) of
        (Some es, Some ls) \<Rightarrow>
          Some \<lparr> pm = es, pmLocal = ls, this_timeout = si_timeout si,
                 this_transport = si_transport si \<rparr>
      | _ \<Rightarrow> None)"

text \<open>
  \<open>add\<close> on the store: the pattern is objectified, the test of
  \<open>forbidSameRouteNames\<close> reads the index, and the indices receive the address of the
  clone. The result is the error, if any, and the instance; \<open>None\<close> when the depth
  \<open>n\<close> does not suffice to read the patterns.
\<close>

definition add_h ::
    "config \<Rightarrow> nat \<Rightarrow> store_instance \<Rightarrow> cell_val \<Rightarrow> handler \<Rightarrow> (add_error option \<times> store_instance) option" where
  "add_h cfg n si pat h =
     (case objectify_h n (heap si) pat of
        None \<Rightarrow> None
      | Some (pattern, heap') \<Rightarrow>
          (case (snapshot n heap' pattern, read_index n heap' (pm_at si)) of
             (Some v, Some es) \<Rightarrow>
               (if pattern_exists cfg es (for_in v)
                then Some (Some (DUPLICATE_PATTERN (for_in v)), si \<lparr> heap := heap' \<rparr>)
                else Some (None,
                       si \<lparr> heap := heap',
                            pm_at := pm_at si @ [(pattern, payload_of h)],
                            pmLocal_at := (if type (payload_of h) = Str ''local''
                                           then pmLocal_at si @ [(pattern, payload_of h)]
                                           else pmLocal_at si) \<rparr>))
           | _ \<Rightarrow> None))"

text \<open>
  \<open>act\<close> on the store: the request pattern is a new object that receives the fields of
  the objectified first argument and of the payloads; the rest of the call reads the
  indices and hands the new object to the method. The store returned is the store at
  the call of the method: what the method does to the objects it can reach, and the
  object it returns, to which the annotations of the debugger are attached, are its own.
\<close>

definition truthy_h :: "cell_val \<Rightarrow> bool" where
  "truthy_h v = (case v of Lit x \<Rightarrow> truthy x | Ref a \<Rightarrow> True)"

definition first_argument_h :: "cell_val list \<Rightarrow> cell_val" where
  "first_argument_h arguments = (case arguments of [] \<Rightarrow> Lit Undefined | a # _ \<Rightarrow> a)"

definition request_pattern_h :: "nat \<Rightarrow> heap \<Rightarrow> cell_val list \<Rightarrow> (nat \<times> heap) option" where
  "request_pattern_h n h arguments =
     (case objectify_h n h (first_argument_h arguments) of
        None \<Rightarrow> None
      | Some (c, h1) \<Rightarrow> Some (assign_h h1 (c # drop 1 arguments)))"

definition act_h ::
    "config \<Rightarrow> fields \<Rightarrow> nat \<Rightarrow> store_instance \<Rightarrow> cell_val list \<Rightarrow> (act_result \<times> heap) option" where
  "act_h cfg annotations n si arguments =
     (if \<not> truthy_h (first_argument_h arguments)
      then Some (\<lparr> settled = Rejected 0 PATTERN_NOT_SPECIFIED, events = [] \<rparr>, heap si)
      else
        (case request_pattern_h n (heap si) arguments of
           None \<Rightarrow> None
         | Some (m, h') \<Rightarrow>
             (case (snapshot n h' (Ref m), view n (si \<lparr> heap := h' \<rparr>)) of
                (Some v, Some this) \<Rightarrow> Some (dispatch cfg annotations this (for_in v), h')
              | _ \<Rightarrow> None)))"

text \<open>
  An address is fresh for a call when it lies between the size of the store before the
  call (\<open>lo\<close>) and its size after the call (\<open>hi\<close>); a store is well formed when every
  address in it is the address of one of its cells.
\<close>

definition fresh_val :: "nat \<Rightarrow> nat \<Rightarrow> cell_val \<Rightarrow> bool" where
  "fresh_val lo hi v = (case v of Lit x \<Rightarrow> True | Ref b \<Rightarrow> lo \<le> b \<and> b < hi)"

definition fresh_fields :: "nat \<Rightarrow> nat \<Rightarrow> cell \<Rightarrow> bool" where
  "fresh_fields lo hi fs = list_all (\<lambda>kv. fresh_val lo hi (snd kv)) fs"

definition fresh_cells :: "nat \<Rightarrow> heap \<Rightarrow> bool" where
  "fresh_cells lo h = (\<forall>a. lo \<le> a \<and> a < length h \<longrightarrow> fresh_fields lo (length h) (h ! a))"

definition wf_heap :: "heap \<Rightarrow> bool" where
  "wf_heap h = (\<forall>a < length h. fresh_fields 0 (length h) (h ! a))"

text \<open>The entries of an index are valid when their addresses are addresses of the store.\<close>

definition valid_entries :: "heap \<Rightarrow> (cell_val \<times> payload) list \<Rightarrow> bool" where
  "valid_entries h es = list_all (\<lambda>e. fresh_val 0 (length h) (fst e)) es"




section \<open>Properties of the parser\<close>

text \<open>
  C7. The parser should read a value as a regular expression exactly when it begins and
  ends with a slash and leave every other value a string. The code tests the first
  character only and then removes the first and the last character, so that a value
  such as \<open>/abc\<close>, which does not end with a slash, becomes the regular expression
  \<open>/ab/\<close> with its last letter lost instead of staying the string \<open>/abc\<close>.
\<close>

theorem text2obj_unclosed_slash:
  "text2obj ''a:/abc'' = [(''a'', RegExp ''ab'')]"
  by (simp add: text2obj_def text2obj_step_def trim_def ltrim_def rtrim_def ws_def
      slice_1_m1_def)

section \<open>Properties of the splitter\<close>













section \<open>Round trip through beautify and text2obj\<close>

































section \<open>Properties of the dispatcher\<close>

lemma request_pattern_001_take: "request_pattern_001 arguments = request_pattern (take 2 arguments)"
  by (cases arguments) (simp_all add: request_pattern_001_def request_pattern_def first_argument_def
      numeral_2_eq_2 drop_Suc)

lemma local_instance_add:
  "add defaultConfig (Bishop defaultConfig) (Obj [(''role'', Str ''a'')]) (Fn f)
     = Inr (local_instance (Fn f))"
  by (simp add: add_def payload_of_def pattern_exists_def Bishop_def defaultConfig_def local_instance_def objectify_def for_in_def
      index_add_def Let_def)


















text \<open>
  C9. For every call of \<open>act\<close> whose first argument is absent or falsy, in the
  current and in the older copy, the promise is rejected at once with the error
  \<open>pattern not specified\<close> and the call has no effect: no index is consulted or
  written and no handler is called.
\<close>

theorem act_pattern_not_specified:
  assumes "\<not> truthy (first_argument arguments)"
  shows "act cfg annotations this arguments
           = \<lparr> settled = Rejected 0 PATTERN_NOT_SPECIFIED, events = [] \<rparr>
       \<and> act_001 cfg this arguments
           = \<lparr> settled = Rejected 0 PATTERN_NOT_SPECIFIED, events = [] \<rparr>"
  using assms by (simp add: act_def act_001_def)

theorem act_pattern_not_specified_witness:
  "act defaultConfig [] (local_instance slow_handler) [Str [], Obj [(''role'', Str ''a'')]]
     = \<lparr> settled = Rejected 0 PATTERN_NOT_SPECIFIED, events = [] \<rparr>
   \<and> act_001 defaultConfig (local_instance slow_handler) []
     = \<lparr> settled = Rejected 0 PATTERN_NOT_SPECIFIED, events = [] \<rparr>"
  using act_pattern_not_specified[of "[Str [], Obj [(''role'', Str ''a'')]]" defaultConfig "[]"
      "local_instance slow_handler"]
    act_pattern_not_specified[of "[]" defaultConfig "[]" "local_instance slow_handler"]
  by (simp add: first_argument_def)

section \<open>Timeout of a transport\<close>

lemma get_prop_set_prop:
  "get_prop (set_prop fs k v) k' = (if k' = k then v else get_prop fs k')"
  by (simp add: get_prop_def update_conv')

text \<open>
  C3 (as amended). For every payload that names a transport whose record has a
  \<open>request\<close> and \<open>options\<close>, where the headers carry neither \<open>local\<close> nor a
  timeout of the caller, \<open>createPayloadWrapper\<close> returns the transport's method and
  adopts the transport's \<open>options.timeout\<close> as the timeout of the headers: the headers
  hold that value when it is truthy, the timeout in effect over any default is the one
  the option gives, and the other headers are unchanged. (The method \<open>act\<close> of the
  two copies of the instance does not read the options of a transport.)
\<close>

theorem createPayloadWrapper_adopts_timeout:
  assumes "\<not> truthy (get_prop headers ''local'')"
    and "map_of remoteTransportsStorage (transport_key (Val name)) = Some t"
    and "request t = Some f"
    and "options t = Some opts"
    and "\<not> truthy (get_prop headers ''timeout'')"
  shows "\<exists>headers'.
           createPayloadWrapper (Val name) headers remoteTransportsStorage = Inr (Fn f, headers')
         \<and> (truthy (get_prop opts ''timeout'') \<longrightarrow>
              get_prop headers' ''timeout'' = get_prop opts ''timeout'')
         \<and> (\<forall>d. js_or (get_prop headers' ''timeout'') d = js_or (get_prop opts ''timeout'') d)
         \<and> (\<forall>k. k \<noteq> ''timeout'' \<longrightarrow> get_prop headers' k = get_prop headers k)"
  using assms
  by (auto simp: createPayloadWrapper_def isFunction_def get_prop_set_prop js_or_def)

theorem createPayloadWrapper_adopts_timeout_witness:
  "\<exists>headers'.
     createPayloadWrapper (Val (Str ''http'')) [(''id'', Str ''r1'')] [(''http'', http_transport)]
       = Inr (Fn (\<lambda>p. Hangs), headers')
     \<and> get_prop headers' ''timeout'' = Num 100
     \<and> get_prop headers' ''id'' = Str ''r1''"
proof -
  have "\<exists>headers'.
           createPayloadWrapper (Val (Str ''http'')) [(''id'', Str ''r1'')] [(''http'', http_transport)]
             = Inr (Fn (\<lambda>p. Hangs), headers')
         \<and> (truthy (get_prop [(''timeout'', Num 100)] ''timeout'') \<longrightarrow>
              get_prop headers' ''timeout'' = get_prop [(''timeout'', Num 100)] ''timeout'')
         \<and> (\<forall>d. js_or (get_prop headers' ''timeout'') d
                 = js_or (get_prop [(''timeout'', Num 100)] ''timeout'') d)
         \<and> (\<forall>k. k \<noteq> ''timeout'' \<longrightarrow> get_prop headers' k = get_prop [(''id'', Str ''r1'')] k)"
    by (rule createPayloadWrapper_adopts_timeout[where t = http_transport])
      (simp_all add: get_prop_def transport_key_def http_transport_def)
  then obtain h where h:
      "createPayloadWrapper (Val (Str ''http'')) [(''id'', Str ''r1'')] [(''http'', http_transport)]
         = Inr (Fn (\<lambda>p. Hangs), h)"
      "truthy (get_prop [(''timeout'', Num 100)] ''timeout'') \<longrightarrow>
         get_prop h ''timeout'' = get_prop [(''timeout'', Num 100)] ''timeout''"
      "\<forall>k. k \<noteq> ''timeout'' \<longrightarrow> get_prop h k = get_prop [(''id'', Str ''r1'')] k"
    by blast
  from h(2) have "get_prop h ''timeout'' = Num 100" by (simp add: get_prop_def)
  moreover from h(3) have "get_prop h ''id'' = Str ''r1''" by (simp add: get_prop_def)
  ultimately show ?thesis using h(1) by blast
qed

text \<open>
  C3 as stated fails on \<open>act\<close>: a call that resolves to a transport whose options
  declare a timeout of 100 milliseconds, with no \<open>$timeout\<close> of the caller, runs under
  the timeout of the instance, 500 milliseconds, in the current and in the older copy.
\<close>

theorem act_ignores_transport_timeout:
  "settled (act defaultConfig [] remote_instance [Obj [(''role'', Str ''x'')]])
     = Rejected 500 (PATTERN_TIMEOUT (Num 500) [(''role'', Str ''x'')])
   \<and> settled (act_001 defaultConfig remote_instance [Obj [(''role'', Str ''x'')]])
     = Rejected 500 (PATTERN_TIMEOUT (Num 500) [(''role'', Str ''x'')])"
  by (simp add: act_def dispatch_def act_001_def first_argument_def request_pattern_def request_pattern_001_def
      assign_def objectify_def own_props_def resolve_def remote_instance_def http_transport_def
      lookup_def matches_def is_meta_def defaultConfig_def executor_def executor_001_def
      executor_await_def executor_await_001_def invoke_def effective_timeout_def js_or_def
      get_prop_def with_timeout_def settles_within_def timer_delay_def Let_def)

section \<open>Registration with forbidSameRouteNames\<close>

lemma isEqual_not_object: "\<not> isPlainObject v \<Longrightarrow> isEqual v w = (v = w)"
  by (cases v) (simp_all add: isPlainObject_def)

lemma depth_plain: "plain_pattern e \<Longrightarrow> depth e = length e"
  by (simp add: plain_pattern_def depth_def list_all_iff)

lemma isEqual_matches:
  assumes "plain_pattern e" "isEqual (Obj e) (Obj q)"
  shows "matches e q \<and> length e = length q"
  using assms
  by (auto simp: plain_pattern_def matches_def list_all_iff isEqual_not_object
      split: option.splits)

lemma matches_isEqual:
  assumes "plain_pattern f" "plain_pattern q" "matches f q" "length q \<le> length f"
  shows "isEqual (Obj f) (Obj q)"
proof -
  have sub: "set (map fst f) \<subseteq> set (map fst q)"
  proof
    fix k assume "k \<in> set (map fst f)"
    then obtain v where kv: "(k, v) \<in> set f" by auto
    with assms(1,3) have "map_of q k = Some v"
      by (auto simp: plain_pattern_def matches_def list_all_iff)
    then show "k \<in> set (map fst q)" by (auto dest: map_of_SomeD intro: rev_image_eqI)
  qed
  have "card (set (map fst f)) \<le> card (set (map fst q))"
    using sub by (intro card_mono) auto
  moreover have "card (set (map fst f)) = length f"
    using assms(1) distinct_card[of "map fst f"] by (simp add: plain_pattern_def)
  moreover have "card (set (map fst q)) = length q"
    using assms(2) distinct_card[of "map fst q"] by (simp add: plain_pattern_def)
  ultimately have "length f \<le> length q" by simp
  with assms(4) have "length f = length q" by simp
  moreover have "list_all (\<lambda>kv. case map_of q (fst kv) of None \<Rightarrow> False
      | Some w \<Rightarrow> isEqual (snd kv) w) f"
    using assms(1,3)
    by (auto simp: plain_pattern_def matches_def list_all_iff isEqual_not_object)
  ultimately show ?thesis by simp
qed

lemma deepest_in: "deepest best es \<in> set (best # es)"
  by (induction es arbitrary: best) auto

lemma deepest_max: "e \<in> set (best # es) \<Longrightarrow> depth (fst e) \<le> depth (fst (deepest best es))"
proof (induction es arbitrary: best e)
  case Nil
  then show ?case by simp
next
  case (Cons x xs)
  let ?b = "if depth (fst best) < depth (fst x) then x else best"
  have b: "depth (fst best) \<le> depth (fst ?b)" "depth (fst x) \<le> depth (fst ?b)" by auto
  have top: "depth (fst ?b) \<le> depth (fst (deepest ?b xs))"
    using Cons.IH[of ?b ?b] by simp
  from Cons.prems consider "e = best" | "e = x" | "e \<in> set xs" by auto
  then show ?case
  proof cases
    case 1 with b(1) top show ?thesis by simp
  next
    case 2 with b(2) top show ?thesis by simp
  next
    case 3
    then have "depth (fst e) \<le> depth (fst (deepest ?b xs))"
      using Cons.IH[of e ?b] by simp
    then show ?thesis by simp
  qed
qed

text \<open>
  In depth order the check does reject an equal pattern, where the patterns registered
  and the new one are plain: the deepest match of a registered pattern is an entry
  equal to it.
\<close>

lemma add_depth_rejects_duplicate:
  assumes "forbidSameRouteNames cfg" "matchOrder cfg = Depth"
    and "\<forall>e \<in> set (pm this). plain_pattern (fst e)"
    and "plain_pattern (for_in (objectify pat))"
    and "\<exists>e \<in> set (pm this). isEqual (Obj (fst e)) (Obj (for_in (objectify pat)))"
  shows "add cfg this pat h = Inl (DUPLICATE_PATTERN (for_in (objectify pat)))"
proof -
  let ?q = "for_in (objectify pat)"
  let ?ms = "filter (\<lambda>e. matches (fst e) ?q) (pm this)"
  from assms(5) obtain e where e: "e \<in> set (pm this)" "isEqual (Obj (fst e)) (Obj ?q)" by blast
  with assms(3) have em: "matches (fst e) ?q" "length (fst e) = length ?q"
    using isEqual_matches by blast+
  then have "e \<in> set ?ms" using e(1) by simp
  then obtain m ms where ms: "?ms = m # ms" by (cases ?ms) auto
  let ?f = "deepest m ms"
  have fin: "?f \<in> set ?ms" using deepest_in[of m ms] ms by simp
  then have f: "?f \<in> set (pm this)" "matches (fst ?f) ?q" by auto
  have "depth (fst e) \<le> depth (fst ?f)"
    using deepest_max[of e m ms] \<open>e \<in> set ?ms\<close> ms by simp
  then have "length ?q \<le> length (fst ?f)"
    using assms(3) e(1) f(1) em(2) by (simp add: depth_plain)
  then have "isEqual (Obj (fst ?f)) (Obj ?q)"
    using matches_isEqual assms(3,4) f by blast
  moreover have "lookup Depth (pm this) ?q = Some ?f" by (simp add: lookup_def ms)
  ultimately have "pattern_exists cfg (pm this) ?q"
    using assms(1,2) by (simp add: pattern_exists_def)
  then show ?thesis by (simp add: add_def Let_def)
qed

text \<open>
  C4. With \<open>forbidSameRouteNames\<close> a second \<open>add\<close> of an equal pattern should fail
  and leave the index with one entry for the pattern, in either match order. The check
  compares the new pattern with the one entry the lookup returns; in insertion order
  that is the entry inserted first among the matches, so that after
  \<^verbatim>\<open>{ a: '1' }\<close> the pattern \<^verbatim>\<open>{ a: '1', b: '2' }\<close> is accepted twice.
\<close>

theorem add_insertion_accepts_duplicate:
  "(case add_all forbid_insertion (Bishop forbid_insertion)
           [(Obj [(''a'', Str ''1'')], hanging_handler),
            (Obj [(''a'', Str ''1''), (''b'', Str ''2'')], hanging_handler),
            (Obj [(''a'', Str ''1''), (''b'', Str ''2'')], hanging_handler)] of
      Inl e \<Rightarrow> None
    | Inr this \<Rightarrow> Some (map fst (pm this)))
   = Some [[(''a'', Str ''1'')],
           [(''a'', Str ''1''), (''b'', Str ''2'')],
           [(''a'', Str ''1''), (''b'', Str ''2'')]]"
  by (simp add: add_def payload_of_def pattern_exists_def forbid_insertion_def defaultConfig_def Bishop_def objectify_def for_in_def
      lookup_def matches_def is_meta_def index_add_def hanging_handler_def Let_def)

section \<open>Lifecycle\<close>

lemma set_runMethodsParallel:
  "set (runMethodsParallel ts m) = {(n, m) | n t. (n, t) \<in> set ts \<and> m \<in> set (hooks t)}"
  by (force simp: runMethodsParallel_def)

lemma lifecycle_calls:
  "set (connect this) = {(n, ''connect'') | n t. (n, t) \<in> set (this_transport this) \<and> ''connect'' \<in> set (hooks t)}"
  "set (listen this) = {(n, ''listen'') | n t. (n, t) \<in> set (this_transport this) \<and> ''listen'' \<in> set (hooks t)}"
  "set (disconnect this) = {(n, ''disconnect'') | n t. (n, t) \<in> set (this_transport this) \<and> ''disconnect'' \<in> set (hooks t)}"
  "set (close this) = {(n, ''close'') | n t. (n, t) \<in> set (this_transport this) \<and> ''close'' \<in> set (hooks t)}"
  by (simp_all only: connect_def listen_def disconnect_def close_def set_runMethodsParallel)

text \<open>
  C5. Each of \<open>connect\<close>, \<open>listen\<close>, \<open>disconnect\<close> and \<open>close\<close> should call the
  lifecycle method of its own name on every transport that declares it. In the older
  copy of the instance \<open>disconnect\<close> calls \<open>connect\<close>: on a transport that declares
  both, the method \<open>connect\<close> runs and \<open>disconnect\<close> does not; the current copy calls
  \<open>disconnect\<close>.
\<close>

theorem disconnect_001_calls_connect:
  "disconnect_001 remote_instance = [(''http'', ''connect'')]
   \<and> disconnect remote_instance = [(''http'', ''disconnect'')]"
  by (simp add: disconnect_001_def disconnect_def runMethodsParallel_def remote_instance_def
      http_transport_def)

section \<open>Properties of the store\<close>

lemma fresh_val_mono: "fresh_val lo hi v \<Longrightarrow> lo' \<le> lo \<Longrightarrow> hi \<le> hi' \<Longrightarrow> fresh_val lo' hi' v"
  by (cases v) (auto simp: fresh_val_def)

lemma fresh_fields_mono:
  "fresh_fields lo hi fs \<Longrightarrow> lo' \<le> lo \<Longrightarrow> hi \<le> hi' \<Longrightarrow> fresh_fields lo' hi' fs"
  by (auto simp: fresh_fields_def list_all_iff intro: fresh_val_mono)

lemma prefix_nth: "prefix h h' \<Longrightarrow> a < length h \<Longrightarrow> h' ! a = h ! a"
  by (auto simp: prefix_def nth_append)

lemma fresh_cells_refl: "fresh_cells (length h) h"
  by (auto simp: fresh_cells_def)

lemma fresh_cells_snoc:
  assumes "fresh_cells lo h" "fresh_fields lo (length h) fs" 
  shows "fresh_cells lo (h @ [fs])"
  unfolding fresh_cells_def
proof (intro allI impI)
  fix a assume a: "lo \<le> a \<and> a < length (h @ [fs])"
  show "fresh_fields lo (length (h @ [fs])) ((h @ [fs]) ! a)"
  proof (cases "a < length h")
    case True
    with a assms(1) have "fresh_fields lo (length h) (h ! a)" by (simp add: fresh_cells_def)
    then show ?thesis using True by (auto simp: nth_append intro: fresh_fields_mono)
  next
    case False
    with a have "a = length h" by simp
    then show ?thesis using assms(2) by (auto intro: fresh_fields_mono)
  qed
qed

lemma fresh_cells_extend:
  assumes "fresh_cells lo h1" "prefix h1 h2" "fresh_cells (length h1) h2" "lo \<le> length h1"
  shows "fresh_cells lo h2"
  unfolding fresh_cells_def
proof (intro allI impI)
  fix a assume a: "lo \<le> a \<and> a < length h2"
  have le: "length h1 \<le> length h2" using assms(2) by (rule prefix_length_le)
  show "fresh_fields lo (length h2) (h2 ! a)"
  proof (cases "a < length h1")
    case True
    with a assms(1) have "fresh_fields lo (length h1) (h1 ! a)" by (simp add: fresh_cells_def)
    then show ?thesis using True le assms(2) by (auto simp: prefix_nth intro: fresh_fields_mono)
  next
    case False
    with a assms(3) have "fresh_fields (length h1) (length h2) (h2 ! a)"
      by (simp add: fresh_cells_def)
    then show ?thesis using assms(4) by (auto intro: fresh_fields_mono)
  qed
qed

text \<open>A clone leaves the cells of the store as they are, and its own cells hold fresh addresses only.\<close>

lemma clone_fresh:
  "(\<forall>v' h'. cloneDeep n h v = Some (v', h') \<longrightarrow>
      prefix h h' \<and> fresh_val (length h) (length h') v' \<and> fresh_cells (length h) h')"
  "(\<forall>fs' h'. cloneFields n h fs = Some (fs', h') \<longrightarrow>
      prefix h h' \<and> fresh_fields (length h) (length h') fs' \<and> fresh_cells (length h) h')"
proof (induction n h v and n h fs rule: cloneDeep_cloneFields.induct)
  case (1 n h v)
  show ?case by (simp add: fresh_val_def fresh_cells_refl)
next
  case (2 h a)
  show ?case by simp
next
  case (3 n h a)
  show ?case
  proof (intro allI impI)
    fix v' h' assume c: "cloneDeep (Suc n) h (Ref a) = Some (v', h')"
    then have a: "a < length h" by (simp split: if_splits)
    with c obtain fs h1 where f: "cloneFields n h (h ! a) = Some (fs, h1)"
      and r: "v' = Ref (length h1)" "h' = h1 @ [fs]"
      by (auto split: option.splits)
    from 3[OF a] f have ih: "prefix h h1" "fresh_fields (length h) (length h1) fs"
      "fresh_cells (length h) h1" by auto
    have "length h \<le> length h1" using ih(1) by (rule prefix_length_le)
    then show "prefix h h' \<and> fresh_val (length h) (length h') v' \<and> fresh_cells (length h) h'"
      using ih r by (auto simp: fresh_val_def intro: fresh_cells_snoc prefix_order.trans)
  qed
next
  case (4 n h)
  show ?case by (simp add: fresh_fields_def fresh_cells_refl)
next
  case (5 n h kv kvs)
  show ?case
  proof (intro allI impI)
    fix fs' h' assume c: "cloneFields n h (kv # kvs) = Some (fs', h')"
    then obtain v' h1 kvs' where d: "cloneDeep n h (snd kv) = Some (v', h1)"
      and f: "cloneFields n h1 kvs = Some (kvs', h')" and r: "fs' = (fst kv, v') # kvs'"
      by (auto split: option.splits)
    from 5(1) d have ih1: "prefix h h1" "fresh_val (length h) (length h1) v'"
      "fresh_cells (length h) h1" by auto
    from 5(2)[OF d refl] f have ih2: "prefix h1 h'" "fresh_fields (length h1) (length h') kvs'"
      "fresh_cells (length h1) h'" by auto
    have le: "length h \<le> length h1" "length h1 \<le> length h'"
      using ih1(1) ih2(1) by (auto intro: prefix_length_le)
    have "fresh_fields (length h) (length h') fs'"
      using ih1(2) ih2(2) le unfolding r
      by (auto simp: fresh_fields_def list_all_iff intro: fresh_val_mono)
    moreover have "fresh_cells (length h) h'"
      using ih1(3) ih2(1) ih2(3) le(1) by (rule fresh_cells_extend)
    ultimately show "prefix h h' \<and> fresh_fields (length h) (length h') fs' \<and> fresh_cells (length h) h'"
      using ih1(1) ih2(1) by (auto intro: prefix_order.trans)
  qed
qed


text \<open>The clone stands for the value the original stands for.\<close>

lemma clone_snapshot:
  "(\<forall>v' h'. cloneDeep n h v = Some (v', h') \<longrightarrow>
      (\<forall>h''. prefix h' h'' \<longrightarrow> snapshot n h'' v' = snapshot n h'' v \<and> snapshot n h'' v \<noteq> None))"
  "(\<forall>fs' h'. cloneFields n h fs = Some (fs', h') \<longrightarrow>
      (\<forall>h''. prefix h' h'' \<longrightarrow>
         snapshot_fields n h'' fs' = snapshot_fields n h'' fs \<and> snapshot_fields n h'' fs \<noteq> None))"
proof (induction n h v and n h fs rule: cloneDeep_cloneFields.induct)
  case (3 n h a)
  show ?case
  proof (intro allI impI)
    fix v' h' h'' assume c: "cloneDeep (Suc n) h (Ref a) = Some (v', h')" and p: "prefix h' h''"
    from c have a: "a < length h" by (simp split: if_splits)
    with c obtain fs h1 where f: "cloneFields n h (h ! a) = Some (fs, h1)"
      and r: "v' = Ref (length h1)" "h' = h1 @ [fs]"
      by (auto split: option.splits)
    have p1: "prefix h h1" using clone_fresh(2) f by blast
    have p2: "prefix h1 h''" using p r(2) by (auto simp: prefix_def)
    have lens: "length h1 < length h''" "a < length h''"
      using p r(2) prefix_length_le[OF p] prefix_length_le[OF p1] a by auto
    have n1: "h'' ! length h1 = fs" using prefix_nth[OF p, of "length h1"] r(2) by simp
    have n2: "h'' ! a = h ! a" using prefix_nth[OF p1 a] prefix_nth[OF p2, of a] prefix_length_le[OF p1] a by simp
    from 3[OF a] f p2 have "snapshot_fields n h'' fs = snapshot_fields n h'' (h ! a)"
      "snapshot_fields n h'' (h ! a) \<noteq> None" by auto
    then show "snapshot (Suc n) h'' v' = snapshot (Suc n) h'' (Ref a) \<and> snapshot (Suc n) h'' (Ref a) \<noteq> None"
      using r(1) lens n1 n2 by auto
  qed
next
  case (5 n h kv kvs)
  show ?case
  proof (intro allI impI)
    fix fs' h' h'' assume c: "cloneFields n h (kv # kvs) = Some (fs', h')" and p: "prefix h' h''"
    then obtain v' h1 kvs' where d: "cloneDeep n h (snd kv) = Some (v', h1)"
      and f: "cloneFields n h1 kvs = Some (kvs', h')" and r: "fs' = (fst kv, v') # kvs'"
      by (auto split: option.splits)
    have "prefix h1 h'" using clone_fresh(2) f by blast
    then have p1: "prefix h1 h''" using p by (rule prefix_order.trans)
    from 5(1) d p1 have e1: "snapshot n h'' v' = snapshot n h'' (snd kv)" "snapshot n h'' (snd kv) \<noteq> None"
      by auto
    from 5(2)[OF d refl] f p have e2: "snapshot_fields n h'' kvs' = snapshot_fields n h'' kvs"
      "snapshot_fields n h'' kvs \<noteq> None" by auto
    show "snapshot_fields n h'' fs' = snapshot_fields n h'' (kv # kvs) \<and> snapshot_fields n h'' (kv # kvs) \<noteq> None"
      using e1 e2 unfolding r by (auto split: option.splits)
  qed
qed simp_all

lemma snapshot_append:
  "wf_heap h \<longrightarrow> fresh_val 0 (length h) v \<longrightarrow> snapshot n (h @ ext) v = snapshot n h v"
  "wf_heap h \<longrightarrow> fresh_fields 0 (length h) fs \<longrightarrow>
     snapshot_fields n (h @ ext) fs = snapshot_fields n h fs"
proof (induction n h v and n h fs rule: snapshot_snapshot_fields.induct)
  case (3 n h b)
  show ?case
  proof (intro impI)
    assume wf: "wf_heap h" and "fresh_val 0 (length h) (Ref b)"
    then have b: "b < length h" by (simp add: fresh_val_def)
    with wf have "fresh_fields 0 (length h) (h ! b)" by (simp add: wf_heap_def)
    with 3[OF b] wf show "snapshot (Suc n) (h @ ext) (Ref b) = snapshot (Suc n) h (Ref b)"
      using b by (simp add: nth_append)
  qed
next
  case (5 n h kv kvs)
  show ?case
  proof (intro impI)
    assume wf: "wf_heap h" and f: "fresh_fields 0 (length h) (kv # kvs)"
    then have ff: "fresh_val 0 (length h) (snd kv)" "fresh_fields 0 (length h) kvs"
      by (simp_all add: fresh_fields_def)
    with 5(1) wf have e: "snapshot n (h @ ext) (snd kv) = snapshot n h (snd kv)" by simp
    show "snapshot_fields n (h @ ext) (kv # kvs) = snapshot_fields n h (kv # kvs)"
    proof (cases "snapshot n h (snd kv)")
      case None
      then show ?thesis using e by simp
    next
      case (Some x)
      with 5(2)[OF Some] ff(2) wf e show ?thesis by simp
    qed
  qed
qed simp_all

lemma wf_heap_extend:
  assumes "wf_heap h" "prefix h h'" "fresh_cells (length h) h'"
  shows "wf_heap h'"
  unfolding wf_heap_def
proof (intro allI impI)
  fix a assume a: "a < length h'"
  have le: "length h \<le> length h'" using assms(2) by (rule prefix_length_le)
  show "fresh_fields 0 (length h') (h' ! a)"
  proof (cases "a < length h")
    case True
    with assms(1) have "fresh_fields 0 (length h) (h ! a)" by (simp add: wf_heap_def)
    then show ?thesis using True le assms(2) by (auto simp: prefix_nth intro: fresh_fields_mono)
  next
    case False
    with a assms(3) have "fresh_fields (length h) (length h') (h' ! a)"
      by (simp add: fresh_cells_def)
    then show ?thesis by (auto intro: fresh_fields_mono)
  qed
qed

text \<open>A depth that suffices to read a value suffices to clone it.\<close>

lemma clone_total:
  "snapshot n h v \<noteq> None \<longrightarrow> wf_heap h \<longrightarrow> fresh_val 0 (length h) v \<longrightarrow>
     cloneDeep n h v \<noteq> None"
  "snapshot_fields n h fs \<noteq> None \<longrightarrow> wf_heap h \<longrightarrow> fresh_fields 0 (length h) fs \<longrightarrow>
     cloneFields n h fs \<noteq> None"
proof (induction n h v and n h fs rule: cloneDeep_cloneFields.induct)
  case (3 n h a)
  show ?case
  proof (intro impI)
    assume s: "snapshot (Suc n) h (Ref a) \<noteq> None" and wf: "wf_heap h"
    then have a: "a < length h" and f: "snapshot_fields n h (h ! a) \<noteq> None"
      by (auto split: if_splits)
    from wf a have "fresh_fields 0 (length h) (h ! a)" by (simp add: wf_heap_def)
    with 3[OF a] f wf have "cloneFields n h (h ! a) \<noteq> None" by simp
    then show "cloneDeep (Suc n) h (Ref a) \<noteq> None" using a by (auto split: option.splits)
  qed
next
  case (5 n h kv kvs)
  show ?case
  proof (intro impI)
    assume s: "snapshot_fields n h (kv # kvs) \<noteq> None" and wf: "wf_heap h"
      and ff: "fresh_fields 0 (length h) (kv # kvs)"
    from s have s1: "snapshot n h (snd kv) \<noteq> None" and s2: "snapshot_fields n h kvs \<noteq> None"
      by (auto split: option.splits)
    from ff have f1: "fresh_val 0 (length h) (snd kv)" and f2: "fresh_fields 0 (length h) kvs"
      by (simp_all add: fresh_fields_def)
    from 5(1) s1 wf f1 obtain v' h1 where d: "cloneDeep n h (snd kv) = Some (v', h1)" by auto
    from clone_fresh(1) d have p: "prefix h h1" and fc: "fresh_cells (length h) h1" by blast+
    from p obtain ext where ext: "h1 = h @ ext" by (auto simp: prefix_def)
    have wf1: "wf_heap h1" using wf p fc by (rule wf_heap_extend)
    have "snapshot_fields n h1 kvs = snapshot_fields n h kvs"
      using snapshot_append(2) wf f2 unfolding ext by blast
    moreover have "fresh_fields 0 (length h1) kvs"
      using f2 prefix_length_le[OF p] by (auto intro: fresh_fields_mono)
    ultimately have "cloneFields n h1 kvs \<noteq> None" using 5(2)[OF d refl] s2 wf1 by simp
    then show "cloneFields n h (kv # kvs) \<noteq> None" using d by (auto split: option.splits)
  qed
qed simp_all

lemma fresh_fields_lit: "fresh_fields lo hi (lit_fields fs)"
  by (simp add: fresh_fields_def lit_fields_def list_all_iff fresh_val_def)

lemma objectify_h_fresh:
  assumes "objectify_h n h obj = Some (v', h')"
  shows "prefix h h' \<and> fresh_val (length h) (length h') v' \<and> fresh_cells (length h) h'"
proof (cases "\<exists>s. obj = Lit (Str s)")
  case True
  then obtain s where "obj = Lit (Str s)" by blast
  with assms have "v' = Ref (length h)" "h' = h @ [lit_fields (text2obj s)]"
    by (simp_all add: objectify_h_def)
  then show ?thesis
    by (auto simp: fresh_val_def intro!: fresh_cells_snoc fresh_cells_refl fresh_fields_lit)
next
  case False
  then have "objectify_h n h obj = cloneDeep n h obj"
    by (auto simp: objectify_h_def split: cell_val.splits jsval.splits)
  with assms clone_fresh(1) show ?thesis by metis
qed

lemma cloneDeep_Ref: "cloneDeep n h (Ref a) = Some (v', h') \<Longrightarrow> \<exists>c. v' = Ref c"
  by (cases n) (auto split: if_splits option.splits)

lemma set_update_subset: "set (AList.update k v al) \<subseteq> insert (k, v) (set al)"
  by (induction al) auto

lemma set_foldl_update:
  "set (foldl (\<lambda>a kv. AList.update (fst kv) (snd kv) a) acc fs) \<subseteq> set acc \<union> set fs"
proof (induction fs arbitrary: acc)
  case Nil
  show ?case by simp
next
  case (Cons kv fs)
  have "set (AList.update (fst kv) (snd kv) acc) \<subseteq> insert kv (set acc)"
    using set_update_subset[of "fst kv" "snd kv" acc] by simp
  with Cons[of "AList.update (fst kv) (snd kv) acc"] show ?case by auto
qed

lemma set_foldl_sources:
  "set (foldl (\<lambda>acc src. foldl (\<lambda>a kv. AList.update (fst kv) (snd kv) a) acc (f src)) acc0 srcs)
     \<subseteq> set acc0 \<union> (\<Union>src \<in> set srcs. set (f src))"
proof (induction srcs arbitrary: acc0)
  case Nil
  show ?case by simp
next
  case (Cons src srcs)
  let ?acc = "foldl (\<lambda>a kv. AList.update (fst kv) (snd kv) a) acc0 (f src)"
  have "set ?acc \<subseteq> set acc0 \<union> set (f src)" by (rule set_foldl_update)
  with Cons[of ?acc] show ?case by auto
qed

lemma those_not_None: "those xs \<noteq> None \<longleftrightarrow> None \<notin> set xs"
  by (induction xs) (auto split: option.splits)

lemma snapshot_fields_not_None:
  "snapshot_fields n h fs \<noteq> None \<longleftrightarrow> (\<forall>kv \<in> set fs. snapshot n h (snd kv) \<noteq> None)"
  by (induction fs) (auto split: option.splits)

lemma read_index_extend:
  assumes "wf_heap h"
    and "\<forall>e \<in> set es. fresh_val 0 (length h) (fst e) \<and> snapshot n h (fst e) \<noteq> None"
  shows "read_index n (h @ ext) es \<noteq> None"
proof -
  have "\<forall>e \<in> set es. snapshot n (h @ ext) (fst e) \<noteq> None"
    using assms snapshot_append(1)[of h _ n ext] by auto
  then show ?thesis
    unfolding read_index_def those_not_None by auto
qed

text \<open>With a depth that suffices to read the pattern, the payloads and the indices, both calls return.\<close>

lemma add_h_total:
  assumes wf: "wf_heap (heap si)" and p: "p < length (heap si)"
    and sp: "snapshot n (heap si) (Ref p) \<noteq> None"
    and idx: "\<forall>e \<in> set (pm_at si). fresh_val 0 (length (heap si)) (fst e)
                \<and> snapshot n (heap si) (fst e) \<noteq> None"
  shows "add_h cfg n si (Ref p) h \<noteq> None"
proof -
  have "cloneDeep n (heap si) (Ref p) \<noteq> None"
    using clone_total(1) sp wf p by (simp add: fresh_val_def)
  then obtain pattern heap' where o: "cloneDeep n (heap si) (Ref p) = Some (pattern, heap')"
    by auto
  have "snapshot n heap' pattern \<noteq> None" using clone_snapshot(1) o by (metis prefix_order.refl)
  moreover have "prefix (heap si) heap'" using clone_fresh(1) o by blast
  then obtain ext where "heap' = heap si @ ext" by (auto simp: prefix_def)
  then have "read_index n heap' (pm_at si) \<noteq> None"
    using read_index_extend[OF wf idx] by simp
  ultimately show ?thesis using o
    by (auto simp: add_h_def objectify_h_def split: option.splits)
qed

lemma act_h_total:
  assumes wf: "wf_heap (heap si)" and p: "p < length (heap si)"
    and sp: "snapshot n (heap si) (Ref p) \<noteq> None"
    and pl: "\<forall>src \<in> set payloads. fresh_val 0 (length (heap si)) src
                \<and> snapshot n (heap si) src \<noteq> None"
    and idx: "\<forall>e \<in> set (pm_at si) \<union> set (pmLocal_at si). fresh_val 0 (length (heap si)) (fst e)
                \<and> snapshot n (heap si) (fst e) \<noteq> None"
  shows "act_h cfg annotations n si (Ref p # payloads) \<noteq> None"
proof -
  obtain k where n: "n = Suc k" using sp by (cases n) auto
  have "cloneDeep n (heap si) (Ref p) \<noteq> None"
    using clone_total(1) sp wf p by (simp add: fresh_val_def)
  then obtain cv h1 where o: "cloneDeep n (heap si) (Ref p) = Some (cv, h1)" by auto
  obtain c where c: "cv = Ref c" using cloneDeep_Ref[OF o] by blast
  from clone_fresh(1) o have fr: "prefix (heap si) h1"
    "fresh_val (length (heap si)) (length h1) cv" "fresh_cells (length (heap si)) h1"
    by blast+
  have wf1: "wf_heap h1" using wf fr(1,3) by (rule wf_heap_extend)
  have cb: "c < length h1" using fr(2) c by (simp add: fresh_val_def)
  obtain ext where ext: "h1 = heap si @ ext" using fr(1) by (auto simp: prefix_def)
  let ?cell = "foldl (\<lambda>acc src. foldl (\<lambda>a kv. AList.update (fst kv) (snd kv) a) acc (own_props_h h1 src))
             [] (cv # payloads)"
  let ?h' = "h1 @ [?cell]"
  have rp: "request_pattern_h n (heap si) (Ref p # payloads) = Some (length h1, ?h')"
    using o by (simp add: request_pattern_h_def first_argument_h_def objectify_h_def assign_h_def)
  have fields: "\<forall>kv \<in> set ?cell. snapshot k ?h' (snd kv) \<noteq> None"
  proof
    fix kv assume "kv \<in> set ?cell"
    then have "kv \<in> (\<Union>src \<in> set (cv # payloads). set (own_props_h h1 src))"
      using set_foldl_sources[of "own_props_h h1" "[]" "cv # payloads"] by auto
    then obtain src where src: "src \<in> set (cv # payloads)" "kv \<in> set (own_props_h h1 src)" by auto
    have "fresh_val 0 (length h1) (snd kv) \<and> snapshot k h1 (snd kv) \<noteq> None"
    proof (cases src)
      case (Lit v)
      with src(2) show ?thesis by (auto simp: own_props_h_def lit_fields_def fresh_val_def)
    next
      case (Ref a)
      with src(2) have a: "a < length h1" "kv \<in> set (h1 ! a)"
        by (auto simp: own_props_h_def split: if_splits)
      have "snapshot n h1 (Ref a) \<noteq> None"
      proof (cases "src = cv")
        case True
        then show ?thesis using clone_snapshot(1) o Ref by (metis prefix_order.refl)
      next
        case False
        with src(1) pl have "fresh_val 0 (length (heap si)) src" "snapshot n (heap si) src \<noteq> None"
          by auto
        then show ?thesis using snapshot_append(1)[of "heap si" src n ext] wf Ref ext by simp
      qed
      then have "snapshot_fields k h1 (h1 ! a) \<noteq> None" using n a(1) by auto
      then have "snapshot k h1 (snd kv) \<noteq> None"
        using a(2) snapshot_fields_not_None[of k h1 "h1 ! a"] by blast
      moreover have "fresh_val 0 (length h1) (snd kv)"
        using wf1 a by (auto simp: wf_heap_def fresh_fields_def list_all_iff)
      ultimately show ?thesis by simp
    qed
    then show "snapshot k ?h' (snd kv) \<noteq> None"
      using snapshot_append(1)[of h1 "snd kv" k "[?cell]"] wf1 by simp
  qed
  have "snapshot_fields k ?h' ?cell \<noteq> None"
    using fields snapshot_fields_not_None[of k ?h' ?cell] by blast
  then have sm: "snapshot n ?h' (Ref (length h1)) \<noteq> None"
    by (auto simp: n)
  have h'ext: "?h' = heap si @ (ext @ [?cell])" using ext by simp
  have i1: "\<forall>e \<in> set (pm_at si). fresh_val 0 (length (heap si)) (fst e)
                \<and> snapshot n (heap si) (fst e) \<noteq> None"
    and i2: "\<forall>e \<in> set (pmLocal_at si). fresh_val 0 (length (heap si)) (fst e)
                \<and> snapshot n (heap si) (fst e) \<noteq> None"
    using idx by blast+
  have "read_index n ?h' (pm_at si) \<noteq> None" "read_index n ?h' (pmLocal_at si) \<noteq> None"
    unfolding h'ext by (rule read_index_extend[OF wf i1], rule read_index_extend[OF wf i2])
  then have "view n (si \<lparr> heap := ?h' \<rparr>) \<noteq> None"
    by (auto simp: view_def)
  with sm rp show ?thesis
    by (auto simp: act_h_def truthy_h_def first_argument_h_def split: option.splits)
qed

lemma those_map_Some: "those (map f xs) = Some ys \<longleftrightarrow> map f xs = map Some ys"
proof (induction xs arbitrary: ys)
  case Nil
  show ?case by auto
next
  case (Cons x xs)
  show ?case by (cases "f x"; cases ys) (auto simp: Cons split: option.splits)
qed

lemma those_Some: "those (map Some xs) = Some xs"
  by (induction xs) simp_all

lemma read_index_append:
  assumes "read_index n h es = Some xs" "read_index n h fs = Some ys"
  shows "read_index n h (es @ fs) = Some (xs @ ys)"
proof -
  let ?f = "\<lambda>e. map_option (\<lambda>v. (for_in v, snd e)) (snapshot n h (fst e))"
  have "map ?f es = map Some xs" "map ?f fs = map Some ys"
    using assms by (simp_all add: read_index_def those_map_Some)
  then have "map ?f (es @ fs) = map Some (xs @ ys)" by simp
  then show ?thesis unfolding read_index_def by (simp only: those_Some)
qed

lemma read_index_same:
  assumes "wf_heap h"
    and "\<forall>e \<in> set es. fresh_val 0 (length h) (fst e)"
  shows "read_index n (h @ ext) es = read_index n h es"
proof -
  have "map (\<lambda>e. map_option (\<lambda>v. (for_in v, snd e)) (snapshot n (h @ ext) (fst e))) es
      = map (\<lambda>e. map_option (\<lambda>v. (for_in v, snd e)) (snapshot n h (fst e))) es"
    using assms snapshot_append(1)[of h _ n ext] by (intro map_cong) auto
  then show ?thesis unfolding read_index_def by (rule arg_cong)
qed

lemma snapshot_Ref_Obj: "snapshot n h (Ref a) = Some v \<Longrightarrow> \<exists>fs. v = Obj fs"
  by (cases n) (auto split: if_splits)

text \<open>
  The two calls on the store do what the calls of the sections above do on the values
  the addresses stand for.
\<close>

lemma add_h_refines_add:
  assumes a: "add_h cfg n si (Ref p) h = Some (r, si')"
    and wf: "wf_heap (heap si)" and p: "p < length (heap si)"
    and ve: "valid_entries (heap si) (pm_at si)" "valid_entries (heap si) (pmLocal_at si)"
    and vw: "view n si = Some this"
    and sp: "snapshot n (heap si) (Ref p) = Some v"
  shows "(case r of
            Some e \<Rightarrow> add cfg this v h = Inl e
          | None \<Rightarrow> (\<exists>this'. view n si' = Some this' \<and> add cfg this v h = Inr this'))"
proof -
  from a obtain pattern heap' where o: "cloneDeep n (heap si) (Ref p) = Some (pattern, heap')"
    by (auto simp: add_h_def objectify_h_def split: option.splits)
  from clone_fresh(1) o have pre: "prefix (heap si) heap'"
    and fv: "fresh_val (length (heap si)) (length heap') pattern" by blast+
  then obtain ext where ext: "heap' = heap si @ ext" by (auto simp: prefix_def)
  from vw obtain es ls where idx: "read_index n (heap si) (pm_at si) = Some es"
    "read_index n (heap si) (pmLocal_at si) = Some ls"
    and inst: "this = \<lparr> pm = es, pmLocal = ls, this_timeout = si_timeout si,
                        this_transport = si_transport si \<rparr>"
    by (auto simp: view_def split: option.splits)
  have idx': "read_index n heap' (pm_at si) = Some es" "read_index n heap' (pmLocal_at si) = Some ls"
    using read_index_same[OF wf, of _ n ext] ve idx
    by (simp_all add: ext valid_entries_def list_all_iff)
  have "snapshot n heap' pattern = snapshot n heap' (Ref p)"
    using clone_snapshot(1) o by (metis prefix_order.refl)
  also have "\<dots> = snapshot n (heap si) (Ref p)"
    using snapshot_append(1)[of "heap si" "Ref p" n ext] wf p by (simp add: ext fresh_val_def)
  finally have sv: "snapshot n heap' pattern = Some v" using sp by simp
  obtain fs where v: "v = Obj fs" using snapshot_Ref_Obj[OF sp] by blast
  have ob: "for_in (objectify v) = for_in v" by (simp add: v objectify_def)
  show ?thesis
  proof (cases "pattern_exists cfg es (for_in v)")
    case True
    with a o sv idx' have "r = Some (DUPLICATE_PATTERN (for_in v))"
      by (auto simp: add_h_def objectify_h_def)
    then show ?thesis using True by (simp add: add_def Let_def ob inst)
  next
    case False
    let ?pl = "payload_of h"
    from a o sv idx' False have r: "r = None"
      and si': "si' = si \<lparr> heap := heap', pm_at := pm_at si @ [(pattern, ?pl)],
                    pmLocal_at := (if type ?pl = Str ''local''
                                   then pmLocal_at si @ [(pattern, ?pl)] else pmLocal_at si) \<rparr>"
      by (auto simp: add_h_def objectify_h_def)
    have one: "read_index n heap' [(pattern, ?pl)] = Some [(for_in v, ?pl)]"
      by (simp add: read_index_def sv)
    have "view n si' = Some \<lparr> pm = es @ [(for_in v, ?pl)],
              pmLocal = (if type ?pl = Str ''local'' then ls @ [(for_in v, ?pl)] else ls),
              this_timeout = si_timeout si, this_transport = si_transport si \<rparr>"
      using read_index_append[OF idx'(1) one] read_index_append[OF idx'(2) one] idx'(2)
      by (simp add: view_def si')
    moreover have "add cfg this v h = Inr \<lparr> pm = es @ [(for_in v, ?pl)],
              pmLocal = (if type ?pl = Str ''local'' then ls @ [(for_in v, ?pl)] else ls),
              this_timeout = si_timeout si, this_transport = si_transport si \<rparr>"
      using False by (simp add: add_def Let_def ob inst index_add_def)
    ultimately show ?thesis using r by simp
  qed
qed

lemma snapshot_fields_lit: "snapshot_fields k h (lit_fields fs) = Some fs"
  by (induction fs) (simp_all add: lit_fields_def)

lemma snapshot_fields_update:
  "snapshot k h cv = Some v \<Longrightarrow> snapshot_fields k h acc = Some accv \<Longrightarrow>
   snapshot_fields k h (AList.update key cv acc) = Some (AList.update key v accv)"
proof (induction acc arbitrary: accv)
  case Nil
  then show ?case by simp
next
  case (Cons kv acc)
  then obtain w accv' where w: "snapshot k h (snd kv) = Some w"
    "snapshot_fields k h acc = Some accv'" "accv = (fst kv, w) # accv'"
    by (auto split: option.splits)
  show ?case
  proof (cases "fst kv = key")
    case True
    then show ?thesis using Cons.prems(1) w by (cases kv) simp
  next
    case False
    then show ?thesis using Cons.IH[OF Cons.prems(1) w(2)] w by (cases kv) simp
  qed
qed

lemma snapshot_fields_foldl_update:
  "snapshot_fields k h fs = Some fsv \<Longrightarrow> snapshot_fields k h acc = Some accv \<Longrightarrow>
   snapshot_fields k h (foldl (\<lambda>a kv. AList.update (fst kv) (snd kv) a) acc fs)
     = Some (foldl (\<lambda>a kv. AList.update (fst kv) (snd kv) a) accv fsv)"
proof (induction fs arbitrary: acc accv fsv)
  case Nil
  then show ?case by simp
next
  case (Cons kv fs)
  then obtain w fsv' where w: "snapshot k h (snd kv) = Some w"
    "snapshot_fields k h fs = Some fsv'" "fsv = (fst kv, w) # fsv'"
    by (auto split: option.splits)
  have "snapshot_fields k h (AList.update (fst kv) (snd kv) acc)
      = Some (AList.update (fst kv) w accv)"
    using snapshot_fields_update[OF w(1) Cons.prems(2)] .
  from Cons.IH[OF w(2) this] show ?case by (simp add: w(3))
qed

lemma snapshot_fields_foldl_sources:
  "list_all2 (\<lambda>src sv. snapshot_fields k h (f src) = Some (own_props sv)) srcs svs \<Longrightarrow>
   snapshot_fields k h acc = Some accv \<Longrightarrow>
   snapshot_fields k h
     (foldl (\<lambda>acc src. foldl (\<lambda>a kv. AList.update (fst kv) (snd kv) a) acc (f src)) acc srcs)
   = Some (foldl (\<lambda>acc sv. foldl (\<lambda>a kv. AList.update (fst kv) (snd kv) a) acc (own_props sv))
             accv svs)"
proof (induction srcs svs arbitrary: acc accv rule: list_all2_induct)
  case Nil
  then show ?case by simp
next
  case (Cons src srcs sv svs)
  from Cons.IH[OF snapshot_fields_foldl_update[OF Cons.hyps(1) Cons.prems]] show ?case by simp
qed

lemma snapshot_own_props:
  assumes "wf_heap h" "fresh_val 0 (length h) src" "snapshot (Suc k) h src = Some sv"
  shows "snapshot_fields k h (own_props_h h src) = Some (own_props sv)
       \<and> fresh_fields 0 (length h) (own_props_h h src)"
proof (cases src)
  case (Lit x)
  with assms(3) show ?thesis
    by (simp add: own_props_h_def snapshot_fields_lit fresh_fields_lit)
next
  case (Ref a)
  with assms(2) have a: "a < length h" by (simp add: fresh_val_def)
  with assms(3) Ref obtain fs where "snapshot_fields k h (h ! a) = Some fs" "sv = Obj fs"
    by auto
  moreover have "fresh_fields 0 (length h) (h ! a)" using assms(1) a by (simp add: wf_heap_def)
  ultimately show ?thesis using Ref a by (simp add: own_props_h_def own_props_def)
qed

lemma act_h_refines_act:
  assumes a: "act_h cfg annotations n si (Ref p # payloads) = Some (r, h')"
    and wf: "wf_heap (heap si)" and p: "p < length (heap si)"
    and ve: "valid_entries (heap si) (pm_at si)" "valid_entries (heap si) (pmLocal_at si)"
    and vw: "view n si = Some this"
    and sp: "snapshot n (heap si) (Ref p) = Some v"
    and pv: "list_all (fresh_val 0 (length (heap si))) payloads"
    and ps: "list_all2 (\<lambda>src sv. snapshot n (heap si) src = Some sv) payloads pvs"
  shows "r = act cfg annotations this (v # pvs)"
proof -
  obtain k where n: "n = Suc k" using sp by (cases n) auto
  from a obtain m where rp: "request_pattern_h n (heap si) (Ref p # payloads) = Some (m, h')"
    by (auto simp: act_h_def truthy_h_def first_argument_h_def split: option.splits prod.splits)
  then obtain cv h1 where o: "cloneDeep n (heap si) (Ref p) = Some (cv, h1)"
    and as: "assign_h h1 (cv # payloads) = (m, h')"
    by (auto simp: request_pattern_h_def first_argument_h_def objectify_h_def split: option.splits)
  from clone_fresh(1) o have fr: "prefix (heap si) h1"
    "fresh_val (length (heap si)) (length h1) cv" "fresh_cells (length (heap si)) h1"
    by blast+
  have wf1: "wf_heap h1" using wf fr(1,3) by (rule wf_heap_extend)
  obtain ext where ext: "h1 = heap si @ ext" using fr(1) by (auto simp: prefix_def)
  have le: "length (heap si) \<le> length h1" using fr(1) by (rule prefix_length_le)
  let ?cell = "foldl (\<lambda>acc src. foldl (\<lambda>a kv. AList.update (fst kv) (snd kv) a) acc (own_props_h h1 src))
             [] (cv # payloads)"
  from as have m: "m = length h1" and h': "h' = h1 @ [?cell]" by (simp_all add: assign_h_def)
  have "snapshot n h1 cv = snapshot n h1 (Ref p)"
    using clone_snapshot(1) o by (metis prefix_order.refl)
  also have "\<dots> = Some v"
    using snapshot_append(1)[of "heap si" "Ref p" n ext] wf p sp by (simp add: ext fresh_val_def)
  finally have scv: "snapshot n h1 cv = Some v" .
  have fcv: "fresh_val 0 (length h1) cv" using fr(2) by (auto intro: fresh_val_mono)
  have srcs: "list_all2 (\<lambda>src sv. snapshot_fields k h' (own_props_h h1 src) = Some (own_props sv))
                (cv # payloads) (v # pvs)"
  proof -
    have one: "snapshot_fields k h' (own_props_h h1 src) = Some (own_props sv)"
      if "fresh_val 0 (length h1) src" "snapshot n h1 src = Some sv" for src sv
    proof -
      from snapshot_own_props[OF wf1 that(1)] that(2) n
      have "snapshot_fields k h1 (own_props_h h1 src) = Some (own_props sv)"
        "fresh_fields 0 (length h1) (own_props_h h1 src)" by simp_all
      then show ?thesis using snapshot_append(2)[of h1 "own_props_h h1 src" k "[?cell]"] wf1 h'
        by simp
    qed
    have "list_all2 (\<lambda>src sv. snapshot_fields k h' (own_props_h h1 src) = Some (own_props sv))
            payloads pvs"
      using ps pv
    proof (induction payloads pvs rule: list_all2_induct)
      case Nil
      show ?case by simp
    next
      case (Cons src srcs sv svs)
      have f: "fresh_val 0 (length (heap si)) src" using Cons.prems by simp
      then have "snapshot n h1 src = Some sv"
        using snapshot_append(1)[of "heap si" src n ext] wf Cons.hyps(1) by (simp add: ext)
      moreover have "fresh_val 0 (length h1) src" using f le by (auto intro: fresh_val_mono)
      ultimately show ?case using one Cons by simp
    qed
    then show ?thesis using one[OF fcv scv] by simp
  qed
  have "snapshot_fields k h' ?cell = Some (assign [] (v # pvs))"
    using snapshot_fields_foldl_sources[OF srcs, of "[]" "[]"] by (simp add: assign_def)
  then have sm: "snapshot n h' (Ref m) = Some (Obj (assign [] (v # pvs)))"
    using m h' n by simp
  have h'ext: "h' = heap si @ (ext @ [?cell])" using h' ext by simp
  have "read_index n h' (pm_at si) = read_index n (heap si) (pm_at si)"
    "read_index n h' (pmLocal_at si) = read_index n (heap si) (pmLocal_at si)"
    using read_index_same[OF wf, of "pm_at si" n "ext @ [?cell]"]
      read_index_same[OF wf, of "pmLocal_at si" n "ext @ [?cell]"] ve
    by (simp_all add: h'ext valid_entries_def list_all_iff)
  then have "view n (si \<lparr> heap := h' \<rparr>) = view n si"
    by (simp add: view_def cong: option.case_cong)
  with a rp sm vw have "r = dispatch cfg annotations this (assign [] (v # pvs))"
    by (auto simp: act_h_def truthy_h_def first_argument_h_def for_in_def)
  moreover obtain fs where "v = Obj fs" using snapshot_Ref_Obj[OF sp] by blast
  ultimately show ?thesis
    by (simp add: act_def first_argument_def request_pattern_def objectify_def)
qed




end
